theory Spec2Isabelle
  imports Complex_Main
begin

section \<open>JavaScript strings and JSON values\<close>

text \<open>
  A JavaScript string is a sequence of UTF-16 code units; a code unit is modelled as a
  natural number, and \<open>js ''...''\<close> turns an ASCII literal into such a sequence.
\<close>

type_synonym jsstring = "nat list"

abbreviation js :: "string \<Rightarrow> jsstring" where
  "js s \<equiv> map of_char s"

text \<open>
  The values \<open>JSON.parse\<close> can return. A number carries the exact decimal value of its
  literal (the engine stores the nearest double; the model reads a number only for
  its truthiness and, in examples, at small integers). An object keeps its members in
  source order; a read takes the last member with the key, as the engine does.
  The value \<open>undefined\<close> is \<open>None\<close> of type \<open>json option\<close>.
\<close>

datatype json =
    JNull
  | JBool bool
  | JNumber rat
  | JString jsstring
  | JArray "json list"
  | JObject "(jsstring \<times> json) list"

datatype js_error = TypeError | SyntaxError | HttpError nat | NetworkError

text \<open>
  \<open>value.key\<close> for the property names the program reads (\<open>type\<close>, \<open>text\<close>, \<open>x\<close>, ...;
  none of them is a built-in property of strings, arrays, numbers or booleans).
  Reading a property of \<open>null\<close> throws a TypeError.
\<close>

fun js_get :: "json \<Rightarrow> jsstring \<Rightarrow> js_error + json option" where
  "js_get JNull k = Inl TypeError"
| "js_get (JObject kvs) k = Inr (map_of (rev kvs) k)"
| "js_get (JBool b) k = Inr None"
| "js_get (JNumber q) k = Inr None"
| "js_get (JString s) k = Inr None"
| "js_get (JArray vs) k = Inr None"

text \<open>The decimal digits of a natural number (an array index, a status code).\<close>

fun show_nat :: "nat \<Rightarrow> jsstring" where
  "show_nat n = (if n < 10 then [48 + n] else show_nat (n div 10) @ [48 + n mod 10])"

declare show_nat.simps [simp del]

text \<open>
  \<open>value[i]\<close> and \<open>value.length\<close>: an array has its elements, a string its code units
  (each a string of length one), an object the property named by the digits of \<open>i\<close>.
\<close>

fun js_index :: "json \<Rightarrow> nat \<Rightarrow> js_error + json option" where
  "js_index JNull i = Inl TypeError"
| "js_index (JArray vs) i = Inr (if i < length vs then Some (vs ! i) else None)"
| "js_index (JString s) i = Inr (if i < length s then Some (JString [s ! i]) else None)"
| "js_index (JObject kvs) i = Inr (map_of (rev kvs) (show_nat i))"
| "js_index (JBool b) i = Inr None"
| "js_index (JNumber q) i = Inr None"

fun js_length :: "json \<Rightarrow> js_error + json option" where
  "js_length JNull = Inl TypeError"
| "js_length (JArray vs) = Inr (Some (JNumber (of_nat (length vs))))"
| "js_length (JString s) = Inr (Some (JNumber (of_nat (length s))))"
| "js_length (JObject kvs) = Inr (map_of (rev kvs) (js ''length''))"
| "js_length (JBool b) = Inr None"
| "js_length (JNumber q) = Inr None"

text \<open>
  ToBoolean. A number literal is falsy exactly when its double is zero, that is when its
  magnitude is at most \<open>2^-1075\<close> (half the smallest subnormal, rounded to even).
\<close>

fun truthy :: "json \<Rightarrow> bool" where
  "truthy JNull = False"
| "truthy (JBool b) = b"
| "truthy (JNumber q) = (\<bar>q\<bar> > 1 / 2 ^ 1075)"
| "truthy (JString s) = (s \<noteq> [])"
| "truthy (JArray vs) = True"
| "truthy (JObject kvs) = True"

fun truthy_val :: "json option \<Rightarrow> bool" where
  "truthy_val None = False"
| "truthy_val (Some v) = truthy v"

text \<open>
  ToString, which string concatenation and template literals apply to a value. An
  object made by \<open>JSON.parse\<close> has the methods of \<open>Object.prototype\<close> unless a member of
  its own hides them: a member named \<open>toString\<close> is not a function, so converting such an
  object throws a TypeError; any other object prints as \<open>[object Object]\<close>. An array
  prints its elements joined by commas, \<open>null\<close> as the empty string. How a number
  prints is left to the parameter \<open>ns\<close> (Number::toString works on the double).
\<close>

fun ToString_throws :: "json \<Rightarrow> bool" where
  "ToString_throws (JObject kvs) = (map_of (rev kvs) (js ''toString'') \<noteq> None)"
| "ToString_throws (JArray vs) = list_ex (\<lambda>v. v \<noteq> JNull \<and> ToString_throws v) vs"
| "ToString_throws JNull = False"
| "ToString_throws (JBool b) = False"
| "ToString_throws (JNumber q) = False"
| "ToString_throws (JString s) = False"

fun ToString_throws_val :: "json option \<Rightarrow> bool" where
  "ToString_throws_val None = False"
| "ToString_throws_val (Some v) = ToString_throws v"

fun join_comma :: "jsstring list \<Rightarrow> jsstring" where
  "join_comma [] = []"
| "join_comma [s] = s"
| "join_comma (s # t # ss) = s @ 44 # join_comma (t # ss)"

text \<open>The string, for a value whose conversion does not throw.\<close>

fun ToString :: "(rat \<Rightarrow> jsstring) \<Rightarrow> json \<Rightarrow> jsstring" where
  "ToString ns JNull = js ''null''"
| "ToString ns (JBool b) = (if b then js ''true'' else js ''false'')"
| "ToString ns (JNumber q) = ns q"
| "ToString ns (JString s) = s"
| "ToString ns (JArray vs) = join_comma (map (\<lambda>v. if v = JNull then [] else ToString ns v) vs)"
| "ToString ns (JObject kvs) = js ''[object Object]''"

fun ToString_val :: "(rat \<Rightarrow> jsstring) \<Rightarrow> json option \<Rightarrow> jsstring" where
  "ToString_val ns None = js ''undefined''"
| "ToString_val ns (Some v) = ToString ns v"

subsection \<open>JSON.parse\<close>

text \<open>
  The JSON grammar of ECMA-404, as \<open>JSON.parse\<close> reads it: a lexer producing
  punctuation and scalar tokens, and a stack machine over the tokens. \<open>None\<close> is the
  SyntaxError the built-in throws.
\<close>

datatype token =
    TLBrace | TRBrace | TLBracket | TRBracket | TColon | TComma
  | TScalar json

definition is_digit :: "nat \<Rightarrow> bool" where
  "is_digit c = (48 \<le> c \<and> c \<le> 57)"

definition hex_val :: "nat \<Rightarrow> nat option" where
  "hex_val c =
     (if 48 \<le> c \<and> c \<le> 57 then Some (c - 48)
      else if 65 \<le> c \<and> c \<le> 70 then Some (c - 55)
      else if 97 \<le> c \<and> c \<le> 102 then Some (c - 87)
      else None)"

definition hex4 :: "nat \<Rightarrow> nat \<Rightarrow> nat \<Rightarrow> nat \<Rightarrow> nat option" where
  "hex4 a b c d =
     (case (hex_val a, hex_val b, hex_val c, hex_val d) of
        (Some p, Some q, Some r, Some s) \<Rightarrow> Some (4096 * p + 256 * q + 16 * r + s)
      | _ \<Rightarrow> None)"

text \<open>
  An escape sequence, after its backslash: the code unit it denotes and the text after it.
\<close>

definition lex_escape :: "jsstring \<Rightarrow> (nat \<times> jsstring) option" where
  "lex_escape s =
     (case s of
        [] \<Rightarrow> None
      | e # cs \<Rightarrow>
          if e = 34 \<or> e = 92 \<or> e = 47 then Some (e, cs)
          else if e = 98 then Some (8, cs)
          else if e = 102 then Some (12, cs)
          else if e = 110 then Some (10, cs)
          else if e = 114 then Some (13, cs)
          else if e = 116 then Some (9, cs)
          else if e = 117 then
            (case cs of
               h1 # h2 # h3 # h4 # cs' \<Rightarrow> map_option (\<lambda>u. (u, cs')) (hex4 h1 h2 h3 h4)
             | _ \<Rightarrow> None)
          else None)"

lemma lex_escape_length:
  "lex_escape s = Some (u, rest) \<Longrightarrow> length rest < length s"
  unfolding lex_escape_def
  by (cases s) (auto split: if_splits list.splits)

text \<open>
  The body of a string literal, after the opening quote: the content read so far is
  \<open>acc\<close> (reversed); the result is the content and the text after the closing quote.
  A raw control character (below U+0020) is not allowed inside a string.
\<close>

function lex_string :: "jsstring \<Rightarrow> jsstring \<Rightarrow> (jsstring \<times> jsstring) option" where
  "lex_string acc [] = None"
| "lex_string acc (c # cs) =
     (if c = 34 then Some (rev acc, cs)
      else if c = 92 then
        (case lex_escape cs of
           None \<Rightarrow> None
         | Some (u, rest) \<Rightarrow> lex_string (u # acc) rest)
      else if c < 32 then None
      else lex_string (c # acc) cs)"
  by pat_completeness auto
termination
  by (relation "measure (\<lambda>(acc, cs). length cs)")
     (auto dest: lex_escape_length)

definition digits_val :: "jsstring \<Rightarrow> nat" where
  "digits_val ds = foldl (\<lambda>n d. 10 * n + (d - 48)) 0 ds"

text \<open>
  A number literal: \<open>-? (0 | [1-9][0-9]*) (. [0-9]+)? ([eE] [+-]? [0-9]+)?\<close>.
  The result is its value and the text after it.
\<close>

definition lex_int_part :: "jsstring \<Rightarrow> (jsstring \<times> jsstring) option" where
  "lex_int_part s =
     (case s of
        [] \<Rightarrow> None
      | c # r \<Rightarrow>
          if c = 48 then Some ([48], r)
          else if is_digit c then Some (takeWhile is_digit s, dropWhile is_digit s)
          else None)"

definition lex_frac_part :: "jsstring \<Rightarrow> (jsstring \<times> jsstring) option" where
  "lex_frac_part s =
     (case s of
        c # r \<Rightarrow>
          if c = 46 then
            (if takeWhile is_digit r = [] then None
             else Some (takeWhile is_digit r, dropWhile is_digit r))
          else Some ([], s)
      | [] \<Rightarrow> Some ([], s))"

definition lex_exp_digits :: "bool \<Rightarrow> jsstring \<Rightarrow> (int \<times> jsstring) option" where
  "lex_exp_digits neg r =
     (if takeWhile is_digit r = [] then None
      else Some ((if neg then - int (digits_val (takeWhile is_digit r))
                  else int (digits_val (takeWhile is_digit r))),
                 dropWhile is_digit r))"

definition lex_exp_part :: "jsstring \<Rightarrow> (int \<times> jsstring) option" where
  "lex_exp_part s =
     (case s of
        c # r \<Rightarrow>
          if c = 101 \<or> c = 69 then
            (case r of
               d # r' \<Rightarrow>
                 if d = 43 then lex_exp_digits False r'
                 else if d = 45 then lex_exp_digits True r'
                 else lex_exp_digits False r
             | [] \<Rightarrow> None)
          else Some (0, s)
      | [] \<Rightarrow> Some (0, s))"

definition scale10 :: "rat \<Rightarrow> int \<Rightarrow> rat" where
  "scale10 m e = (if 0 \<le> e then m * 10 ^ nat e else m / 10 ^ nat (- e))"

definition lex_unsigned :: "jsstring \<Rightarrow> (rat \<times> jsstring) option" where
  "lex_unsigned s =
     (case lex_int_part s of
        None \<Rightarrow> None
      | Some (ip, s1) \<Rightarrow>
          (case lex_frac_part s1 of
             None \<Rightarrow> None
           | Some (fp, s2) \<Rightarrow>
               (case lex_exp_part s2 of
                  None \<Rightarrow> None
                | Some (e, s3) \<Rightarrow>
                    Some (scale10 (of_nat (digits_val (ip @ fp))) (e - int (length fp)), s3))))"

definition lex_number :: "jsstring \<Rightarrow> (rat \<times> jsstring) option" where
  "lex_number s =
     (case s of
        [] \<Rightarrow> None
      | c # r \<Rightarrow>
          if c = 45 then map_option (\<lambda>(q, rest). (- q, rest)) (lex_unsigned r)
          else lex_unsigned s)"

lemma lex_string_length:
  "lex_string acc cs = Some (s, rest) \<Longrightarrow> length rest < length cs"
proof (induction acc cs arbitrary: s rest rule: lex_string.induct)
  case (1 acc)
  then show ?case by simp
next
  case (2 acc c cs)
  show ?case
  proof (cases "c = 34")
    case True
    with 2(3) show ?thesis by simp
  next
    case c34: False
    show ?thesis
    proof (cases "c = 92")
      case True
      with 2(3) c34 obtain u r where e: "lex_escape cs = Some (u, r)"
        and l: "lex_string (u # acc) r = Some (s, rest)"
        by (auto split: option.splits)
      from 2(1) [OF c34 True e refl l] lex_escape_length [OF e]
      show ?thesis by simp
    next
      case False
      with 2(3) c34 have c32: "\<not> c < 32" and l: "lex_string (c # acc) cs = Some (s, rest)"
        by (auto split: if_splits)
      from 2(2) [OF c34 False c32 l] show ?thesis by simp
    qed
  qed
qed

lemma length_dropWhile_less:
  "takeWhile P xs \<noteq> [] \<Longrightarrow> length (dropWhile P xs) < length xs"
  by (cases xs) (auto simp: le_imp_less_Suc length_dropWhile_le split: if_splits)

lemma lex_int_part_length:
  "lex_int_part s = Some (ip, rest) \<Longrightarrow> length rest < length s"
  by (auto simp: lex_int_part_def le_imp_less_Suc length_dropWhile_le split: list.splits if_splits)

lemma lex_frac_part_length:
  "lex_frac_part s = Some (fp, rest) \<Longrightarrow> length rest \<le> length s"
  by (auto simp: lex_frac_part_def le_SucI length_dropWhile_le split: list.splits if_splits)

lemma lex_exp_digits_length:
  "lex_exp_digits neg s = Some (e, rest) \<Longrightarrow> length rest \<le> length s"
  by (auto simp: lex_exp_digits_def length_dropWhile_le split: if_splits)

lemma lex_exp_part_length:
  "lex_exp_part s = Some (e, rest) \<Longrightarrow> length rest \<le> length s"
  by (auto simp: lex_exp_part_def le_SucI dest!: lex_exp_digits_length split: list.splits if_splits)

lemma lex_unsigned_length:
  "lex_unsigned s = Some (q, rest) \<Longrightarrow> length rest < length s"
  by (auto simp: lex_unsigned_def split: option.splits
           dest!: lex_int_part_length lex_frac_part_length lex_exp_part_length)

lemma lex_number_length:
  "lex_number s = Some (q, rest) \<Longrightarrow> length rest < length s"
  by (auto simp: lex_number_def less_SucI split: list.splits if_splits dest!: lex_unsigned_length)

text \<open>The lexer: whitespace between tokens is space, tab, line feed and carriage return.\<close>

definition is_json_ws :: "nat \<Rightarrow> bool" where
  "is_json_ws c = (c = 32 \<or> c = 9 \<or> c = 10 \<or> c = 13)"

function lex :: "jsstring \<Rightarrow> token list option" where
  "lex [] = Some []"
| "lex (c # cs) =
     (if is_json_ws c then lex cs
      else if c = 123 then map_option ((#) TLBrace) (lex cs)
      else if c = 125 then map_option ((#) TRBrace) (lex cs)
      else if c = 91 then map_option ((#) TLBracket) (lex cs)
      else if c = 93 then map_option ((#) TRBracket) (lex cs)
      else if c = 58 then map_option ((#) TColon) (lex cs)
      else if c = 44 then map_option ((#) TComma) (lex cs)
      else if c = 34 then
        (case lex_string [] cs of
           None \<Rightarrow> None
         | Some (s, rest) \<Rightarrow> map_option ((#) (TScalar (JString s))) (lex rest))
      else if c = 45 \<or> is_digit c then
        (case lex_number (c # cs) of
           None \<Rightarrow> None
         | Some (q, rest) \<Rightarrow> map_option ((#) (TScalar (JNumber q))) (lex rest))
      else if take 4 (c # cs) = js ''true'' then
        map_option ((#) (TScalar (JBool True))) (lex (drop 3 cs))
      else if take 5 (c # cs) = js ''false'' then
        map_option ((#) (TScalar (JBool False))) (lex (drop 4 cs))
      else if take 4 (c # cs) = js ''null'' then
        map_option ((#) (TScalar JNull)) (lex (drop 3 cs))
      else None)"
  by pat_completeness auto
termination
  by (relation "measure length")
     (auto dest: lex_string_length lex_number_length)

text \<open>
  The parser: a stack of the containers that are open, and what may come next.
  An open array holds its elements so far, an open object its members so far and the
  key that waits for its value (both lists reversed).
\<close>

datatype frame =
    FArray "json list"
  | FObject "(jsstring \<times> json) list" "jsstring option"

datatype expect =
    ExpValue
  | ExpValueOrEnd
  | ExpKeyOrEnd
  | ExpKey
  | ExpColon
  | ExpCommaOrEnd
  | Done json

text \<open>A value is complete: it goes into the innermost open container, or it is the result.\<close>

fun put_value :: "json \<Rightarrow> frame list \<Rightarrow> (expect \<times> frame list) option" where
  "put_value v [] = Some (Done v, [])"
| "put_value v (FArray xs # st) = Some (ExpCommaOrEnd, FArray (v # xs) # st)"
| "put_value v (FObject ms (Some k) # st) = Some (ExpCommaOrEnd, FObject ((k, v) # ms) None # st)"
| "put_value v (FObject ms None # st) = None"

fun start_value :: "token \<Rightarrow> frame list \<Rightarrow> (expect \<times> frame list) option" where
  "start_value (TScalar v) st = put_value v st"
| "start_value TLBracket st = Some (ExpValueOrEnd, FArray [] # st)"
| "start_value TLBrace st = Some (ExpKeyOrEnd, FObject [] None # st)"
| "start_value _ st = None"

fun take_key :: "token \<Rightarrow> frame list \<Rightarrow> (expect \<times> frame list) option" where
  "take_key (TScalar (JString k)) (FObject ms None # st) = Some (ExpColon, FObject ms (Some k) # st)"
| "take_key _ st = None"

fun close_array :: "frame list \<Rightarrow> (expect \<times> frame list) option" where
  "close_array (FArray xs # st) = put_value (JArray (rev xs)) st"
| "close_array _ = None"

fun close_object :: "frame list \<Rightarrow> (expect \<times> frame list) option" where
  "close_object (FObject ms None # st) = put_value (JObject (rev ms)) st"
| "close_object _ = None"

fun parse_step :: "expect \<times> frame list \<Rightarrow> token \<Rightarrow> (expect \<times> frame list) option" where
  "parse_step (ExpValue, st) t = start_value t st"
| "parse_step (ExpValueOrEnd, st) t = (if t = TRBracket then close_array st else start_value t st)"
| "parse_step (ExpKeyOrEnd, st) t = (if t = TRBrace then close_object st else take_key t st)"
| "parse_step (ExpKey, st) t = take_key t st"
| "parse_step (ExpColon, st) t = (if t = TColon then Some (ExpValue, st) else None)"
| "parse_step (ExpCommaOrEnd, st) t =
     (case st of
        FArray xs # st' \<Rightarrow>
          if t = TComma then Some (ExpValue, st)
          else if t = TRBracket then close_array st
          else None
      | FObject ms k # st' \<Rightarrow>
          if t = TComma then Some (ExpKey, st)
          else if t = TRBrace then close_object st
          else None
      | [] \<Rightarrow> None)"
| "parse_step (Done v, st) t = None"

fun parse_tokens :: "expect \<times> frame list \<Rightarrow> token list \<Rightarrow> json option" where
  "parse_tokens (Done v, []) [] = Some v"
| "parse_tokens cfg [] = None"
| "parse_tokens cfg (t # ts) =
     (case parse_step cfg t of
        None \<Rightarrow> None
      | Some cfg' \<Rightarrow> parse_tokens cfg' ts)"

definition JSON_parse :: "jsstring \<Rightarrow> json option" where
  "JSON_parse text =
     (case lex text of
        None \<Rightarrow> None
      | Some ts \<Rightarrow> parse_tokens (ExpValue, []) ts)"

section \<open>The stream decoder of the client (fetchStreamingResponse)\<close>

subsection \<open>String operations\<close>

text \<open>\<open>s.split(sep)\<close> for a one-character separator: the result is never empty.\<close>

fun split_on :: "'a \<Rightarrow> 'a list \<Rightarrow> 'a list list" where
  "split_on sep [] = [[]]"
| "split_on sep (c # cs) =
     (if c = sep then [] # split_on sep cs
      else (case split_on sep cs of
              l # ls \<Rightarrow> (c # l) # ls
            | [] \<Rightarrow> [[c]]))"

text \<open>
  The code units \<open>trim\<close> removes: the WhiteSpace and LineTerminator productions of
  ECMAScript (tab, LF, VT, FF, CR, space, NBSP, U+1680, U+2000..U+200A, U+2028, U+2029,
  U+202F, U+205F, U+3000, U+FEFF).
\<close>

definition is_js_space :: "nat \<Rightarrow> bool" where
  "is_js_space c =
     (if c < 256 then (9 \<le> c \<and> c \<le> 13) \<or> c = 32 \<or> c = 160
      else c = 5760 \<or> (8192 \<le> c \<and> c \<le> 8202) \<or> c = 8232 \<or> c = 8233 \<or> c = 8239 \<or>
           c = 8287 \<or> c = 12288 \<or> c = 65279)"

definition trim :: "jsstring \<Rightarrow> jsstring" where
  "trim s = rev (dropWhile is_js_space (rev (dropWhile is_js_space s)))"

definition startsWith :: "jsstring \<Rightarrow> jsstring \<Rightarrow> bool" where
  "startsWith s p = (take (length p) s = p)"

text \<open>\<open>s.substring(n)\<close>, for \<open>n\<close> a natural number.\<close>

definition substring_from :: "jsstring \<Rightarrow> nat \<Rightarrow> jsstring" where
  "substring_from s n = drop n s"

subsection \<open>The loops\<close>

text \<open>
  The body of the \<open>for (const part of parts)\<close> loop, for one part: the part is skipped
  (blank, without the prefix, or its payload does not parse: the exception is caught and
  logged), or its payload is passed to \<open>onCommand\<close>, or it is the sentinel and the loop is
  left by \<open>break\<close>.
\<close>

datatype part_result = Skip | Emit json | Break

definition process_part :: "jsstring \<Rightarrow> part_result" where
  "process_part part =
     (if trim part \<noteq> [] then
        (if startsWith part (js ''data: '') then
           (let data = substring_from part 6 in
            if data = js ''[DONE]'' then Break
            else (case JSON_parse data of
                    None \<Rightarrow> Skip
                  | Some command \<Rightarrow> Emit command))
         else Skip)
      else Skip)"

text \<open>The \<open>for\<close> loop over the complete lines of one read: the commands passed to \<open>onCommand\<close>.\<close>

fun process_parts :: "jsstring list \<Rightarrow> json list" where
  "process_parts [] = []"
| "process_parts (part # parts) =
     (case process_part part of
        Skip \<Rightarrow> process_parts parts
      | Emit command \<Rightarrow> command # process_parts parts
      | Break \<Rightarrow> [])"

text \<open>
  The \<open>while (true)\<close> loop: \<open>chunks\<close> are the decoded texts of the reads, in arrival order,
  up to \<open>done\<close>. Each read appends to the buffer, splits it at line feeds, keeps the last
  fragment as the new buffer (\<open>parts.pop()\<close>) and runs the \<open>for\<close> loop over the others.
  At \<open>done\<close> the loop ends; what is left in the buffer is not looked at.
\<close>

fun read_loop :: "jsstring \<Rightarrow> jsstring list \<Rightarrow> json list" where
  "read_loop buffer [] = []"
| "read_loop buffer (chunk # chunks) =
     (let parts = split_on 10 (buffer @ chunk)
      in process_parts (butlast parts) @ read_loop (last parts) chunks)"

record response =
  ok :: bool
  status :: nat
  body :: "jsstring list"

text \<open>
  \<open>fetchStreamingResponse\<close>: the commands handed to \<open>onCommand\<close>, in order, or the error
  thrown for a response that is not ok.
\<close>

definition fetchStreamingResponse :: "response \<Rightarrow> js_error + json list" where
  "fetchStreamingResponse r =
     (if \<not> ok r then Inl (HttpError (status r))
      else Inr (read_loop [] (body r)))"

text \<open>
  A frame as the server writes it (\<open>res.write(`data: ${JSON.stringify(command)}\n\n`)\<close>), and
  what makes the payload of a \<open>data: {...}\<close> frame well formed: it opens with a brace, lies
  on one line and parses.
\<close>

definition frame_line :: "jsstring \<Rightarrow> jsstring" where
  "frame_line payload = js ''data: '' @ payload"

definition frame_text :: "jsstring \<Rightarrow> jsstring" where
  "frame_text payload = frame_line payload @ [10, 10]"

definition wf_payload :: "jsstring \<Rightarrow> bool" where
  "wf_payload p = (take 1 p = js ''{'' \<and> 10 \<notin> set p \<and> JSON_parse p \<noteq> None)"

text \<open>
  For stating what the decoder does: the complete lines of a text (every fragment of the
  split but the last), and the commands one line gives when it is not the sentinel.
\<close>

definition complete_lines :: "jsstring \<Rightarrow> jsstring list" where
  "complete_lines text = butlast (split_on 10 text)"

definition emitted :: "jsstring \<Rightarrow> json list" where
  "emitted part = (case process_part part of Emit command \<Rightarrow> [command] | _ \<Rightarrow> [])"

section \<open>The proxy endpoint's stream handler (server.js)\<close>

subsection \<open>extractCommands\<close>

definition is_brace :: "nat \<Rightarrow> bool" where
  "is_brace c = (c = 123 \<or> c = 125)"

text \<open>
  The regular expression \<open>/\{[^{}]*\}/\<close> tried at the start of \<open>s\<close>: an opening brace, the
  longest run of code units that are not braces, a closing brace. The result is the match
  and the text after it. (The class excludes the closing brace, so the greedy run decides
  the match: nothing is gained by giving code units back.)
\<close>

definition match_here :: "jsstring \<Rightarrow> (jsstring \<times> jsstring) option" where
  "match_here s =
     (case s of
        [] \<Rightarrow> None
      | c # cs \<Rightarrow>
          if c = 123 then
            (case dropWhile (\<lambda>d. \<not> is_brace d) cs of
               [] \<Rightarrow> None
             | d # rest \<Rightarrow>
                 if d = 125 then Some (c # takeWhile (\<lambda>d. \<not> is_brace d) cs @ [d], rest)
                 else None)
          else None)"

lemma match_here_length:
  "match_here s = Some (m, rest) \<Longrightarrow> length rest < length s"
proof -
  assume a: "match_here s = Some (m, rest)"
  then obtain c cs d where s: "s = c # cs" and d: "dropWhile (\<lambda>d. \<not> is_brace d) cs = d # rest"
    by (auto simp: match_here_def split: list.splits if_splits)
  have "length (dropWhile (\<lambda>d. \<not> is_brace d) cs) \<le> length cs"
    by (rule length_dropWhile_le)
  with s d show ?thesis by simp
qed

text \<open>
  \<open>text.match(/\{[^{}]*\}/g)\<close>: the matches from left to right, each search starting where
  the last match ended, one code unit further on when there is no match at a position.
  The empty list stands for \<open>null\<close> (no match), which the caller skips.
\<close>

function match_all :: "jsstring \<Rightarrow> jsstring list" where
  "match_all [] = []"
| "match_all (c # cs) =
     (case match_here (c # cs) of
        Some (m, rest) \<Rightarrow> m # match_all rest
      | None \<Rightarrow> match_all cs)"
  by pat_completeness auto
termination
  by (relation "measure length") (auto dest: match_here_length)

text \<open>
  The body of \<open>jsonMatches.forEach\<close>: the match is parsed; a command with a truthy \<open>type\<close>
  is pushed; an exception (the parse error) is caught and ignored.
\<close>

definition command_of_match :: "jsstring \<Rightarrow> json list" where
  "command_of_match m =
     (case JSON_parse m of
        None \<Rightarrow> []
      | Some command \<Rightarrow>
          (case js_get command (js ''type'') of
             Inl e \<Rightarrow> []
           | Inr t \<Rightarrow> if truthy_val t then [command] else []))"

definition extractCommands :: "jsstring \<Rightarrow> json list" where
  "extractCommands text = concat (map command_of_match (match_all text))"

subsection \<open>The loose recovery in the spec's words\<close>

text \<open>
  A bracket-balanced \<open>{...}\<close> substring with no nested braces is a stretch of the text
  from an opening brace at offset \<open>i\<close> to a closing brace at offset \<open>j\<close> with no brace
  between them. \<open>brace_spans\<close> lists these stretches by their opening offset, from left to
  right; \<open>accepted\<close> is what such a substring gives: the value it parses to when it parses
  as JSON with a truthy \<open>type\<close>, nothing otherwise.
\<close>

definition brace_span :: "jsstring \<Rightarrow> nat \<Rightarrow> nat \<Rightarrow> bool" where
  "brace_span text i j =
     (i < j \<and> j < length text \<and> text ! i = 123 \<and> text ! j = 125 \<and>
      list_all (\<lambda>k. \<not> is_brace (text ! k)) [Suc i..<j])"

definition span_row :: "jsstring \<Rightarrow> nat \<Rightarrow> (nat \<times> nat) list" where
  "span_row text i = map (Pair i) (filter (brace_span text i) [Suc i..<length text])"

definition spans_from :: "nat \<Rightarrow> jsstring \<Rightarrow> (nat \<times> nat) list" where
  "spans_from n text = concat (map (span_row text) [n..<length text])"

definition brace_spans :: "jsstring \<Rightarrow> (nat \<times> nat) list" where
  "brace_spans text = spans_from 0 text"

text \<open>\<open>text.substring(i, j)\<close> for \<open>i \<le> j\<close>.\<close>

definition substring :: "jsstring \<Rightarrow> nat \<Rightarrow> nat \<Rightarrow> jsstring" where
  "substring s i j = take (j - i) (drop i s)"

definition has_truthy_type :: "json \<Rightarrow> bool" where
  "has_truthy_type v =
     (case js_get v (js ''type'') of
        Inr (Some t) \<Rightarrow> truthy t
      | other \<Rightarrow> False)"

definition accepted :: "jsstring \<Rightarrow> json list" where
  "accepted s =
     (case JSON_parse s of
        None \<Rightarrow> []
      | Some v \<Rightarrow> if has_truthy_type v then [v] else [])"

definition loose_recovery_spec :: "jsstring \<Rightarrow> json list" where
  "loose_recovery_spec text =
     concat (map (\<lambda>(i, j). accepted (substring text i (Suc j))) (brace_spans text))"

subsection \<open>The data handler\<close>

text \<open>
  \<open>commandBuffer += text; commands = extractCommands(commandBuffer)\<close>: when a command is
  found, every command is written as a frame and the buffer is set to the empty string.
  The result is the commands written and the new buffer.
\<close>

definition accumulate :: "jsstring \<Rightarrow> jsstring \<Rightarrow> json list \<times> jsstring" where
  "accumulate commandBuffer text =
     (let commandBuffer' = commandBuffer @ text;
          commands = extractCommands commandBuffer'
      in if length commands > 0 then (commands, []) else ([], commandBuffer'))"

text \<open>The commands written over successive texts, from a given buffer.\<close>

fun accumulate_all :: "jsstring \<Rightarrow> jsstring list \<Rightarrow> json list" where
  "accumulate_all commandBuffer [] = []"
| "accumulate_all commandBuffer (text # texts) =
     (case accumulate commandBuffer text of
        (commands, commandBuffer') \<Rightarrow> commands @ accumulate_all commandBuffer' texts)"

text \<open>
  The guard \<open>parsed.candidates && parsed.candidates[0] && parsed.candidates[0].content\<close> and
  the read \<open>parsed.candidates[0].content.parts[0].text\<close>: an error thrown on the way
  (\<open>Inl\<close>), the guard is false (\<open>Inr None\<close>), or the value read (\<open>Inr (Some text)\<close>).
\<close>

definition parts0_text :: "json \<Rightarrow> js_error + json option" where
  "parts0_text content =
     (case js_get content (js ''parts'') of
        Inl e \<Rightarrow> Inl e
      | Inr None \<Rightarrow> Inl TypeError
      | Inr (Some parts) \<Rightarrow>
          (case js_index parts 0 of
             Inl e \<Rightarrow> Inl e
           | Inr None \<Rightarrow> Inl TypeError
           | Inr (Some part0) \<Rightarrow> js_get part0 (js ''text'')))"

definition candidate_text :: "json \<Rightarrow> js_error + json option option" where
  "candidate_text parsed =
     (case js_get parsed (js ''candidates'') of
        Inl e \<Rightarrow> Inl e
      | Inr None \<Rightarrow> Inr None
      | Inr (Some candidates) \<Rightarrow>
          if \<not> truthy candidates then Inr None
          else
            (case js_index candidates 0 of
               Inl e \<Rightarrow> Inl e
             | Inr None \<Rightarrow> Inr None
             | Inr (Some candidate0) \<Rightarrow>
                 if \<not> truthy candidate0 then Inr None
                 else
                   (case js_get candidate0 (js ''content'') of
                      Inl e \<Rightarrow> Inl e
                    | Inr None \<Rightarrow> Inr None
                    | Inr (Some content) \<Rightarrow>
                        if \<not> truthy content then Inr None
                        else map_sum id Some (parts0_text content))))"

text \<open>
  One line of the \<open>for (const line of lines)\<close> loop: the response is ended (the sentinel:
  \<open>res.end(); return\<close>), or the loop goes on with the commands written for this line and
  the new command buffer. A line that is blank or has no prefix, a payload that does not
  parse or does not have the shape read, or a text that cannot be converted to a string,
  change nothing (an exception is caught and logged).
\<close>

datatype line_result = EndResponse | Continue "json list" jsstring

definition process_line :: "(rat \<Rightarrow> jsstring) \<Rightarrow> jsstring \<Rightarrow> jsstring \<Rightarrow> line_result" where
  "process_line ns commandBuffer line =
     (if trim line \<noteq> [] then
        (if startsWith line (js ''data: '') then
           (let data = substring_from line 6 in
            if data = js ''[DONE]'' then EndResponse
            else
              (case JSON_parse data of
                 None \<Rightarrow> Continue [] commandBuffer
               | Some parsed \<Rightarrow>
                   (case candidate_text parsed of
                      Inl e \<Rightarrow> Continue [] commandBuffer
                    | Inr None \<Rightarrow> Continue [] commandBuffer
                    | Inr (Some text) \<Rightarrow>
                        if ToString_throws_val text then Continue [] commandBuffer
                        else
                          (case accumulate commandBuffer (ToString_val ns text) of
                             (commands, commandBuffer') \<Rightarrow> Continue commands commandBuffer'))))
         else Continue [] commandBuffer)
      else Continue [] commandBuffer)"

text \<open>
  The state of one request: the line buffer, the command buffer, whether \<open>res.end()\<close> was
  called, the commands written before that (each as the frame
  \<open>data: JSON.stringify(command)\<close> and an empty line), and the commands written after it,
  which the response no longer carries.
\<close>

record server_state =
  buffer :: jsstring
  commandBuffer :: jsstring
  ended :: bool
  written :: "json list"
  late :: "json list"

definition write_commands :: "json list \<Rightarrow> server_state \<Rightarrow> server_state" where
  "write_commands commands st =
     (if ended st then st\<lparr>late := late st @ commands\<rparr>
      else st\<lparr>written := written st @ commands\<rparr>)"

fun process_lines :: "(rat \<Rightarrow> jsstring) \<Rightarrow> jsstring list \<Rightarrow> server_state \<Rightarrow> server_state" where
  "process_lines ns [] st = st"
| "process_lines ns (line # lines) st =
     (case process_line ns (commandBuffer st) line of
        EndResponse \<Rightarrow> st\<lparr>ended := True\<rparr>
      | Continue commands commandBuffer' \<Rightarrow>
          process_lines ns lines (write_commands commands (st\<lparr>commandBuffer := commandBuffer'\<rparr>)))"

text \<open>The handler of the upstream's \<open>data\<close> event, for one chunk.\<close>

definition on_data :: "(rat \<Rightarrow> jsstring) \<Rightarrow> jsstring \<Rightarrow> server_state \<Rightarrow> server_state" where
  "on_data ns chunk st =
     (let lines = split_on 10 (buffer st @ chunk)
      in process_lines ns (butlast lines) (st\<lparr>buffer := last lines\<rparr>))"

definition initial_server_state :: server_state where
  "initial_server_state = \<lparr>buffer = [], commandBuffer = [], ended = False, written = [], late = []\<rparr>"

text \<open>The handler of the upstream's \<open>end\<close> event.\<close>

definition on_end :: "server_state \<Rightarrow> server_state" where
  "on_end st = st\<lparr>ended := True\<rparr>"

section \<open>The command interpreter (renderCommand)\<close>

text \<open>
  The elements \<open>renderCommand\<close> returns: a tag (a Konva shape or one of the file's own
  components), the attributes in the order they are written (\<open>key\<close> first), and the
  children. A child of an element is an element, \<open>null\<close>, or another JavaScript value
  put between the tags as it is.
\<close>

record MathSpan =
  m_start :: nat
  m_end :: nat
  m_latex :: jsstring

datatype tag = Text | Line | Rect | Group | KonvaImage | MixedTextRenderer | EquationRenderer

text \<open>
  An attribute is a JavaScript value, the list of spans handed to \<open>MixedTextRenderer\<close>, or
  the product of a value and a number literal (\<open>imageData.width * 0.8\<close>), which is not
  evaluated here.
\<close>

datatype propval =
    PVal "json option"
  | PSpans "MathSpan list"
  | PTimes "json option" rat

datatype node =
    Element tag "(jsstring \<times> propval) list" "node list"
  | Null
  | Value "json option"

text \<open>\<open>value.key\<close> for a value known not to be \<open>null\<close>.\<close>

definition field :: "json \<Rightarrow> jsstring \<Rightarrow> json option" where
  "field v k = (case js_get v k of Inl e \<Rightarrow> None | Inr x \<Rightarrow> x)"

text \<open>\<open>a || b\<close>.\<close>

definition js_or :: "json option \<Rightarrow> json option \<Rightarrow> json option" where
  "js_or a b = (if truthy_val a then a else b)"

text \<open>The key of an element: \<open>`${command.type}-${index}`\<close>, for a type that is a string.\<close>

definition key_of :: "jsstring \<Rightarrow> jsstring \<Rightarrow> propval" where
  "key_of ty index = PVal (Some (JString (ty @ js ''-'' @ index)))"

definition str :: "string \<Rightarrow> propval" where
  "str s = PVal (Some (JString (js s)))"

definition num :: "rat \<Rightarrow> json option" where
  "num q = Some (JNumber q)"

text \<open>
  The cases of the \<open>switch\<close>, for a command that is not \<open>null\<close>. The span detector
  \<open>detectLatex\<close> is a parameter (\<open>dl\<close>).
\<close>

definition render_text :: "(json option \<Rightarrow> MathSpan list) \<Rightarrow> json \<Rightarrow> jsstring \<Rightarrow> node" where
  "render_text dl command index =
     (let latexMatches = dl (field command (js ''text'')) in
      if length latexMatches > 0 then
        Element MixedTextRenderer
          [(js ''key'', key_of (js ''text'') index),
           (js ''text'', PVal (field command (js ''text''))),
           (js ''x'', PVal (js_or (field command (js ''x'')) (num 20))),
           (js ''y'', PVal (field command (js ''y''))),
           (js ''fontSize'', PVal (js_or (field command (js ''fontSize'')) (num 16))),
           (js ''latexMatches'', PSpans latexMatches)] []
      else
        Element Text
          [(js ''key'', key_of (js ''text'') index),
           (js ''x'', PVal (js_or (field command (js ''x'')) (num 20))),
           (js ''y'', PVal (field command (js ''y''))),
           (js ''text'', PVal (field command (js ''text''))),
           (js ''fontSize'', PVal (js_or (field command (js ''fontSize'')) (num 16))),
           (js ''fill'', str ''#000''),
           (js ''fontFamily'', str ''Arial''),
           (js ''align'', str ''left'')] [])"

definition render_equation :: "json \<Rightarrow> jsstring \<Rightarrow> node" where
  "render_equation command index =
     Element EquationRenderer
       [(js ''key'', key_of (js ''equation'') index),
        (js ''latex'', PVal (js_or (field command (js ''latex'')) (field command (js ''text'')))),
        (js ''x'', PVal (field command (js ''x''))),
        (js ''y'', PVal (field command (js ''y''))),
        (js ''fontSize'', PVal (js_or (field command (js ''fontSize'')) (num 18)))] []"

definition render_line :: "json \<Rightarrow> jsstring \<Rightarrow> node" where
  "render_line command index =
     Element Line
       [(js ''key'', key_of (js ''line'') index),
        (js ''points'', PVal (field command (js ''points''))),
        (js ''stroke'', str ''#000''),
        (js ''strokeWidth'', PVal (js_or (field command (js ''strokeWidth'')) (num 2))),
        (js ''lineCap'', str ''round''),
        (js ''lineJoin'', str ''round'')] []"

definition render_rect :: "json \<Rightarrow> jsstring \<Rightarrow> node" where
  "render_rect command index =
     Element Rect
       [(js ''key'', key_of (js ''rect'') index),
        (js ''x'', PVal (field command (js ''x''))),
        (js ''y'', PVal (field command (js ''y''))),
        (js ''width'', PVal (field command (js ''width''))),
        (js ''height'', PVal (field command (js ''height''))),
        (js ''stroke'', str ''#000''),
        (js ''strokeWidth'', PVal (num 2)),
        (js ''fill'', str ''transparent'')] []"

definition group_props :: "json \<Rightarrow> jsstring \<Rightarrow> (jsstring \<times> propval) list" where
  "group_props command index =
     [(js ''key'', key_of (js ''group'') index),
      (js ''x'', PVal (field command (js ''x''))),
      (js ''y'', PVal (field command (js ''y'')))]"

lemma field_size: "field v k = Some w \<Longrightarrow> size w < size v"
proof (cases v)
  case (JObject kvs)
  assume "field v k = Some w"
  with JObject have "(k, w) \<in> set kvs"
    by (auto simp: field_def dest: map_of_SomeD)
  then have "size_prod (\<lambda>x. 0) size (k, w) \<le> size_list (size_prod (\<lambda>x. 0) size) kvs"
    by (rule size_list_estimation') simp
  with JObject show ?thesis by simp
qed (auto simp: field_def)

text \<open>
  \<open>renderCommand(command, index)\<close>: the element, \<open>null\<close> for a type the \<open>switch\<close> does not
  know, or the TypeError thrown by reading \<open>type\<close> of \<open>null\<close>, by building the key
  \<open>`${command.type}-${index}`\<close> from a type that cannot be converted to a string (the
  key is built before the \<open>switch\<close>), or by calling \<open>map\<close> on children that are truthy
  and not an array. \<open>renderChildren\<close> is
  \<open>children.map((child, childIndex) => renderCommand(child, `${index}-${childIndex}`))\<close>
  from \<open>childIndex = k\<close> on, \<open>prefix\<close> being the index of the parent and the dash.
\<close>

function renderCommand :: "(json option \<Rightarrow> MathSpan list) \<Rightarrow> json \<Rightarrow> jsstring \<Rightarrow> js_error + node"
  and renderChildren ::
    "(json option \<Rightarrow> MathSpan list) \<Rightarrow> json list \<Rightarrow> jsstring \<Rightarrow> nat \<Rightarrow> js_error + node list"
where
  "renderCommand dl command index =
     (case js_get command (js ''type'') of
        Inl e \<Rightarrow> Inl e
      | Inr ty \<Rightarrow>
          if ToString_throws_val ty then Inl TypeError
          else if ty = Some (JString (js ''text'')) then Inr (render_text dl command index)
          else if ty = Some (JString (js ''equation'')) then Inr (render_equation command index)
          else if ty = Some (JString (js ''line'')) then Inr (render_line command index)
          else if ty = Some (JString (js ''rect'')) then Inr (render_rect command index)
          else if ty = Some (JString (js ''group'')) then
            (case field command (js ''children'') of
               Some (JArray children) \<Rightarrow>
                 (case renderChildren dl children (index @ js ''-'') 0 of
                    Inl e \<Rightarrow> Inl e
                  | Inr nodes \<Rightarrow> Inr (Element Group (group_props command index) nodes))
             | other \<Rightarrow>
                 if truthy_val other then Inl TypeError
                 else Inr (Element Group (group_props command index) [Value other]))
          else Inr Null)"
| "renderChildren dl [] prefix k = Inr []"
| "renderChildren dl (child # children) prefix k =
     (case renderCommand dl child (prefix @ show_nat k) of
        Inl e \<Rightarrow> Inl e
      | Inr n \<Rightarrow>
          (case renderChildren dl children prefix (Suc k) of
             Inl e \<Rightarrow> Inl e
           | Inr nodes \<Rightarrow> Inr (n # nodes)))"
  by pat_completeness auto
termination
  by (relation "measure (\<lambda>a. case a of
                   Inl (dl, command, index) \<Rightarrow> size command
                 | Inr (dl, children, prefix, k) \<Rightarrow> size_list size children)")
     (auto dest!: field_size)

declare renderCommand.simps [simp del]

text \<open>The layer: \<open>commands.map((command, index) => renderCommand(command, index))\<close>.\<close>

definition render_layer :: "(json option \<Rightarrow> MathSpan list) \<Rightarrow> json list \<Rightarrow> js_error + node list" where
  "render_layer dl commands = renderChildren dl commands [] 0"

text \<open>The drawables of a rendered list: what is left without the \<open>null\<close> entries.\<close>

definition drawables :: "node list \<Rightarrow> node list" where
  "drawables nodes = filter (\<lambda>n. n \<noteq> Null) nodes"

subsection \<open>Where the presentation layer puts a rectangle\<close>

text \<open>
  The composition rule of the canvas library for positions: a group moves its children by
  its own \<open>x\<close> and \<open>y\<close>; an attribute that is not given counts as zero. Only numeric
  attributes are read: a shape or a group with another kind of value is left out.
\<close>

definition num_prop :: "(jsstring \<times> propval) list \<Rightarrow> jsstring \<Rightarrow> rat option" where
  "num_prop props k =
     (case map_of props k of
        None \<Rightarrow> Some 0
      | Some (PVal None) \<Rightarrow> Some 0
      | Some (PVal (Some (JNumber q))) \<Rightarrow> Some q
      | Some other \<Rightarrow> None)"

fun absolute_rects :: "rat \<Rightarrow> rat \<Rightarrow> node \<Rightarrow> (rat \<times> rat \<times> rat \<times> rat) list" where
  "absolute_rects ox oy (Element t props children) =
     (if t = Rect then
        (case (num_prop props (js ''x''), num_prop props (js ''y''),
               num_prop props (js ''width''), num_prop props (js ''height'')) of
           (Some x, Some y, Some w, Some h) \<Rightarrow> [(ox + x, oy + y, w, h)]
         | other \<Rightarrow> [])
      else if t = Group then
        (case (num_prop props (js ''x''), num_prop props (js ''y'')) of
           (Some gx, Some gy) \<Rightarrow> concat (map (absolute_rects (ox + gx) (oy + gy)) children)
         | other \<Rightarrow> [])
      else [])"
| "absolute_rects ox oy Null = []"
| "absolute_rects ox oy (Value v) = []"

subsection \<open>The group rule in the spec's words\<close>

text \<open>
  The rectangles of a command, read from the command itself: a \<open>rect\<close> is its own
  rectangle, moved by the offset it is given; the children of a \<open>group\<close> are taken with
  the offset moved by the group's own \<open>x\<close> and \<open>y\<close>, and so on down; any other command
  has none. A coordinate that is missing counts as zero and one that is not a number
  leaves the shape out, as in the presentation layer.
\<close>

definition num_field :: "json \<Rightarrow> jsstring \<Rightarrow> rat option" where
  "num_field command k =
     (case field command k of
        None \<Rightarrow> Some 0
      | Some (JNumber q) \<Rightarrow> Some q
      | Some other \<Rightarrow> None)"

definition rect_of :: "rat \<Rightarrow> rat \<Rightarrow> json \<Rightarrow> (rat \<times> rat \<times> rat \<times> rat) list" where
  "rect_of ox oy command =
     (case (num_field command (js ''x''), num_field command (js ''y''),
            num_field command (js ''width''), num_field command (js ''height'')) of
        (Some rx, Some ry, Some w, Some h) \<Rightarrow> [(ox + rx, oy + ry, w, h)]
      | other \<Rightarrow> [])"

function command_rects :: "rat \<Rightarrow> rat \<Rightarrow> json \<Rightarrow> (rat \<times> rat \<times> rat \<times> rat) list" where
  "command_rects ox oy command =
     (if field command (js ''type'') = Some (JString (js ''rect'')) then rect_of ox oy command
      else if field command (js ''type'') = Some (JString (js ''group'')) then
        (case field command (js ''children'') of
           Some (JArray children) \<Rightarrow>
             (case num_field command (js ''x'') of
                None \<Rightarrow> []
              | Some gx \<Rightarrow>
                  (case num_field command (js ''y'') of
                     None \<Rightarrow> []
                   | Some gy \<Rightarrow> concat (map (command_rects (ox + gx) (oy + gy)) children)))
         | other \<Rightarrow> [])
      else [])"
  by pat_completeness auto
termination
proof (relation "measure (\<lambda>(ox, oy, command). size command)", goal_cases)
  case 1
  show ?case by simp
next
  case (2 ox oy command a children gx gy child)
  from 2(3) 2(4) have "field command (js ''children'') = Some (JArray children)" by simp
  then have "size (JArray children) < size command" by (rule field_size)
  moreover have "size child \<le> size_list size children"
    using 2(7) by (rule size_list_estimation') simp
  ultimately show ?case by simp
qed

declare command_rects.simps [simp del]

subsection \<open>Commands as the model writes them\<close>

text \<open>
  The \<open>rect\<close> and \<open>group\<close> commands of the system instruction, and the types the \<open>switch\<close>
  has a case for.
\<close>

definition rect_command :: "rat \<Rightarrow> rat \<Rightarrow> rat \<Rightarrow> rat \<Rightarrow> json" where
  "rect_command rx ry w h =
     JObject [(js ''type'', JString (js ''rect'')), (js ''x'', JNumber rx), (js ''y'', JNumber ry),
              (js ''width'', JNumber w), (js ''height'', JNumber h)]"

definition group_command :: "rat \<Rightarrow> rat \<Rightarrow> json list \<Rightarrow> json" where
  "group_command gx gy children =
     JObject [(js ''type'', JString (js ''group'')), (js ''x'', JNumber gx), (js ''y'', JNumber gy),
              (js ''children'', JArray children)]"

definition recognized_types :: "jsstring list" where
  "recognized_types = [js ''text'', js ''equation'', js ''line'', js ''rect'', js ''group'']"

section \<open>The math span detector (detectLatex)\<close>

text \<open>
  Modelled from the spec: \<open>detectLatex\<close> is imported from \<open>./utils/latexRenderer\<close>, and
  that file does not define it. The spec: given a plain-text string, return an
  ordered-by-position list of MathSpan records \<open>{start, end, latex}\<close> (a half-open offset
  range into the source text, and the content) for every substring recognized as math
  markup, delimited by a fixed pair of markers (matched inline-math delimiters),
  non-overlapping, in left-to-right order; an empty list when no markers are found.
  Tested on: \<open>solve $x^2$ now\<close> gives one span with content \<open>x^2\<close>; text with no
  delimiters gives an empty list; unbalanced delimiters give no spans.
  The marker is the dollar sign (code unit 36), as in the spec's example. The delimiters
  of a text are balanced when the number of markers is even: then the markers pair up
  from left to right, a span runs from an opening marker to the next marker, both
  included, its content is what lies between them, and the search goes on after the
  closing marker. A text whose delimiters are unbalanced gives no spans.
\<close>

definition closing :: "jsstring \<Rightarrow> (jsstring \<times> jsstring) option" where
  "closing s =
     (case dropWhile (\<lambda>c. c \<noteq> 36) s of
        [] \<Rightarrow> None
      | d # rest \<Rightarrow> Some (takeWhile (\<lambda>c. c \<noteq> 36) s, rest))"

lemma closing_length: "closing s = Some (content, rest) \<Longrightarrow> length rest < length s"
proof -
  assume "closing s = Some (content, rest)"
  then obtain d where d: "dropWhile (\<lambda>c. c \<noteq> 36) s = d # rest"
    by (auto simp: closing_def split: list.splits)
  have "length (dropWhile (\<lambda>c. c \<noteq> 36) s) \<le> length s"
    by (rule length_dropWhile_le)
  with d show ?thesis by simp
qed

function detect_from :: "nat \<Rightarrow> jsstring \<Rightarrow> MathSpan list" where
  "detect_from off [] = []"
| "detect_from off (c # cs) =
     (if c = 36 then
        (case closing cs of
           None \<Rightarrow> []
         | Some (content, rest) \<Rightarrow>
             \<lparr>m_start = off, m_end = off + length content + 2, m_latex = content\<rparr>
               # detect_from (off + length content + 2) rest)
      else detect_from (Suc off) cs)"
  by pat_completeness auto
termination
  by (relation "measure (\<lambda>(off, s). length s)") (auto dest: closing_length)

definition detectLatex :: "jsstring \<Rightarrow> MathSpan list" where
  "detectLatex text = (if even (count_list text 36) then detect_from 0 text else [])"

section \<open>The equation renderers\<close>

subsection \<open>EquationRenderer\<close>







subsection \<open>MathRenderer (latexRenderer.js)\<close>



section \<open>The request handler of the page (handleGenerate, App.js)\<close>

text \<open>
  The state of the \<open>App\<close> component that the handler writes. The error text is empty, the
  message of a caught exception after \<open>Error: \<close>, or \<open>Unexpected response format\<close>.
\<close>

record equation =
  eq_id :: jsstring
  eq_latex :: "json option"
  eq_x :: "json option"
  eq_y :: "json option"
  eq_fontSize :: "json option"

datatype error_text = NoError | ErrorOf js_error | UnexpectedFormat

record app_state =
  prompt :: jsstring
  loading :: bool
  error :: error_text
  commands :: "json list"
  equations :: "equation list"

text \<open>
  What the network gives one call of the handler: \<open>fetch\<close> rejects, or it resolves with
  \<open>response.ok\<close>, \<open>response.status\<close> and a body that \<open>response.json()\<close> parses
  (\<open>None\<close>: the body is not JSON).
\<close>

datatype outcome = FetchRejects | Responds bool nat "json option"

text \<open>
  A call of the handler that has not returned waits at one of its \<open>await\<close>s: for the
  response, for its body, or for the 800 ms timer of iteration \<open>i\<close> of the loop over
  \<open>data.commands\<close>.
\<close>

datatype task =
    AwaitFetch outcome
  | AwaitJson "json option"
  | AwaitTimer json nat

text \<open>The \<open>catch\<close> and \<open>finally\<close> blocks: the call ends.\<close>

definition caught :: "js_error \<Rightarrow> app_state \<Rightarrow> app_state \<times> task option" where
  "caught e s = (s\<lparr>error := ErrorOf e, loading := False\<rparr>, None)"

definition finished :: "app_state \<Rightarrow> app_state \<times> task option" where
  "finished s = (s\<lparr>loading := False\<rparr>, None)"

text \<open>
  The loop test \<open>i < data.commands.length\<close>. For an array or a string the length is a
  natural number; for another value the comparison of \<open>i\<close> with whatever its \<open>length\<close>
  property holds is left to the parameter \<open>lt\<close> (the relational operator works on
  doubles); a length that is \<open>undefined\<close> compares false.
\<close>

definition loop_test :: "(nat \<Rightarrow> json \<Rightarrow> bool) \<Rightarrow> json \<Rightarrow> nat \<Rightarrow> bool" where
  "loop_test lt cs i =
     (case cs of
        JArray vs \<Rightarrow> i < length vs
      | JString s \<Rightarrow> i < length s
      | other \<Rightarrow>
          (case js_length other of
             Inr (Some l) \<Rightarrow> lt i l
           | Inr None \<Rightarrow> False
           | Inl e \<Rightarrow> False))"

definition enter_loop :: "(nat \<Rightarrow> json \<Rightarrow> bool) \<Rightarrow> json \<Rightarrow> nat \<Rightarrow> app_state \<Rightarrow> app_state \<times> task option" where
  "enter_loop lt cs i s =
     (if loop_test lt cs i then (s, Some (AwaitTimer cs i)) else finished s)"

text \<open>The entry pushed for an equation command at index \<open>i\<close>.\<close>

definition equation_of :: "json \<Rightarrow> nat \<Rightarrow> equation" where
  "equation_of command i =
     \<lparr>eq_id = js ''eq-'' @ show_nat i,
      eq_latex = js_or (field command (js ''latex'')) (field command (js ''text'')),
      eq_x = field command (js ''x''),
      eq_y = field command (js ''y''),
      eq_fontSize = js_or (field command (js ''fontSize'')) (num 20)\<rparr>"

text \<open>The body of the loop after the timer: one command is appended to its list.\<close>

definition apply_command :: "json \<Rightarrow> nat \<Rightarrow> app_state \<Rightarrow> js_error + app_state" where
  "apply_command command i s =
     (case js_get command (js ''type'') of
        Inl e \<Rightarrow> Inl e
      | Inr ty \<Rightarrow>
          if ty = Some (JString (js ''equation''))
          then Inr (s\<lparr>equations := equations s @ [equation_of command i]\<rparr>)
          else Inr (s\<lparr>commands := commands s @ [command]\<rparr>))"

text \<open>The text command shown for a body that is a string.\<close>

definition text_command :: "jsstring \<Rightarrow> json" where
  "text_command data =
     JObject [(js ''type'', JString (js ''text'')), (js ''text'', JString data),
              (js ''x'', JNumber 20), (js ''y'', JNumber 20), (js ''fontSize'', JNumber 16)]"

text \<open>One call goes on from its \<open>await\<close> until the next one, or until it returns.\<close>

fun resume :: "(nat \<Rightarrow> json \<Rightarrow> bool) \<Rightarrow> task \<Rightarrow> app_state \<Rightarrow> app_state \<times> task option" where
  "resume lt (AwaitFetch FetchRejects) s = caught NetworkError s"
| "resume lt (AwaitFetch (Responds is_ok st parsed)) s =
     (if \<not> is_ok then caught (HttpError st) s else (s, Some (AwaitJson parsed)))"
| "resume lt (AwaitJson None) s = caught SyntaxError s"
| "resume lt (AwaitJson (Some data)) s =
     (case js_get data (js ''commands'') of
        Inl e \<Rightarrow> caught e s
      | Inr cv \<Rightarrow>
          (case cv of
             Some cs \<Rightarrow>
               if truthy cs then enter_loop lt cs 0 s
               else (case data of
                       JString d \<Rightarrow> finished (s\<lparr>commands := [text_command d]\<rparr>)
                     | other \<Rightarrow> finished (s\<lparr>error := UnexpectedFormat\<rparr>))
           | None \<Rightarrow>
               (case data of
                  JString d \<Rightarrow> finished (s\<lparr>commands := [text_command d]\<rparr>)
                | other \<Rightarrow> finished (s\<lparr>error := UnexpectedFormat\<rparr>))))"
| "resume lt (AwaitTimer cs i) s =
     (case js_index cs i of
        Inl e \<Rightarrow> caught e s
      | Inr None \<Rightarrow> caught TypeError s
      | Inr (Some command) \<Rightarrow>
          (case apply_command command i s of
             Inl e \<Rightarrow> caught e s
           | Inr s' \<Rightarrow> enter_loop lt cs (Suc i) s'))"

text \<open>
  \<open>handleGenerate()\<close> up to its first \<open>await\<close>: nothing for a blank prompt; otherwise the
  lists are emptied and the request is sent.
\<close>

definition handleGenerate :: "outcome \<Rightarrow> app_state \<Rightarrow> app_state \<times> task option" where
  "handleGenerate out s =
     (if trim (prompt s) = [] then (s, None)
      else (s\<lparr>loading := True, error := NoError, commands := [], equations := []\<rparr>,
            Some (AwaitFetch out)))"

definition clearCanvas :: "app_state \<Rightarrow> app_state" where
  "clearCanvas s = s\<lparr>commands := [], equations := [], error := NoError\<rparr>"

text \<open>
  The page and the calls of the handler that have not returned (a call that has
  returned leaves \<open>None\<close> in its place). The events: a key press of Enter in the input
  field calls the handler; a click on Generate calls it when the button is enabled
  (\<open>disabled={loading || !prompt.trim()}\<close>); Clear; typing a prompt; and call \<open>k\<close> going on
  from its \<open>await\<close>.
\<close>

record page =
  app :: app_state
  calls :: "task option list"

datatype event =
    PressEnter outcome
  | ClickGenerate outcome
  | ClickClear
  | Type jsstring
  | Resume nat

definition start_call :: "outcome \<Rightarrow> page \<Rightarrow> page" where
  "start_call out pg =
     (case handleGenerate out (app pg) of
        (s, t) \<Rightarrow> \<lparr>app = s, calls = calls pg @ [t]\<rparr>)"

definition step :: "(nat \<Rightarrow> json \<Rightarrow> bool) \<Rightarrow> event \<Rightarrow> page \<Rightarrow> page" where
  "step lt ev pg =
     (case ev of
        PressEnter out \<Rightarrow> start_call out pg
      | ClickGenerate out \<Rightarrow>
          if loading (app pg) \<or> trim (prompt (app pg)) = [] then pg else start_call out pg
      | ClickClear \<Rightarrow> pg\<lparr>app := clearCanvas (app pg)\<rparr>
      | Type p \<Rightarrow> pg\<lparr>app := (app pg)\<lparr>prompt := p\<rparr>\<rparr>
      | Resume k \<Rightarrow>
          if k < length (calls pg) then
            (case calls pg ! k of
               None \<Rightarrow> pg
             | Some t \<Rightarrow>
                 (case resume lt t (app pg) of
                    (s, t') \<Rightarrow> \<lparr>app = s, calls = (calls pg)[k := t']\<rparr>))
          else pg)"

fun run :: "(nat \<Rightarrow> json \<Rightarrow> bool) \<Rightarrow> event list \<Rightarrow> page \<Rightarrow> page" where
  "run lt [] pg = pg"
| "run lt (ev # evs) pg = run lt evs (step lt ev pg)"

definition initial_page :: page where
  "initial_page =
     \<lparr>app = \<lparr>prompt = [], loading = False, error = NoError, commands = [], equations = []\<rparr>,
      calls = []\<rparr>"

text \<open>No call of the handler is waiting.\<close>

definition all_returned :: "page \<Rightarrow> bool" where
  "all_returned pg = list_all (\<lambda>t. t = None) (calls pg)"

lemma split_on_nonempty: "split_on sep xs \<noteq> []"
  by (induction xs) (auto split: list.splits)

lemma split_on_no_sep: "sep \<notin> set xs \<Longrightarrow> split_on sep xs = [xs]"
  by (induction xs) auto

lemma split_on_line: "sep \<notin> set l \<Longrightarrow> split_on sep (l @ sep # rest) = l # split_on sep rest"
  by (induction l) auto

lemma last_split_on_no_sep: "sep \<notin> set (last (split_on sep xs))"
proof (induction xs)
  case Nil
  then show ?case by simp
next
  case (Cons c xs)
  then show ?case
    using split_on_nonempty [of sep xs]
    by (cases "split_on sep xs") (auto split: if_splits)
qed

lemma split_on_append:
  "split_on sep (xs @ ys) =
     butlast (split_on sep xs) @ split_on sep (last (split_on sep xs) @ ys)"
proof (induction xs)
  case Nil
  then show ?case by simp
next
  case (Cons c xs)
  show ?case
  proof (cases "c = sep")
    case True
    with Cons show ?thesis
      by (simp add: split_on_nonempty)
  next
    case False
    obtain l ls where s: "split_on sep xs = l # ls"
      using split_on_nonempty [of sep xs] by (cases "split_on sep xs") auto
    show ?thesis
    proof (cases ls)
      case Nil
      with s Cons False show ?thesis by simp
    next
      case (Cons l' ls')
      with s Cons.IH False show ?thesis by simp
    qed
  qed
qed

lemma complete_lines_append:
  "complete_lines (xs @ ys) =
     complete_lines xs @ complete_lines (last (split_on 10 xs) @ ys)"
  unfolding complete_lines_def
  by (subst split_on_append) (simp add: butlast_append split_on_nonempty)

lemma last_split_on_append:
  "last (split_on sep (xs @ ys)) = last (split_on sep (last (split_on sep xs) @ ys))"
  by (subst split_on_append) (simp add: split_on_nonempty)


lemma process_parts_no_break:
  "\<forall>p \<in> set parts. process_part p \<noteq> Break \<Longrightarrow>
   process_parts parts = concat (map emitted parts)"
  by (induction parts) (auto simp: emitted_def split: part_result.splits)

lemma read_loop_lines:
  "10 \<notin> set buf \<Longrightarrow>
   \<forall>p \<in> set (complete_lines (buf @ concat chunks)). process_part p \<noteq> Break \<Longrightarrow>
   read_loop buf chunks = concat (map emitted (complete_lines (buf @ concat chunks)))"
proof (induction chunks arbitrary: buf)
  case Nil
  then show ?case by (simp add: complete_lines_def split_on_no_sep)
next
  case (Cons chunk chunks)
  let ?parts = "split_on 10 (buf @ chunk)"
  have all: "complete_lines (buf @ concat (chunk # chunks)) =
      complete_lines (buf @ chunk) @ complete_lines (last ?parts @ concat chunks)"
    using complete_lines_append [of "buf @ chunk" "concat chunks"] by simp
  have nb1: "\<forall>p \<in> set (butlast ?parts). process_part p \<noteq> Break"
    using Cons.prems(2) unfolding all by (simp add: complete_lines_def)
  have nb2: "\<forall>p \<in> set (complete_lines (last ?parts @ concat chunks)). process_part p \<noteq> Break"
    using Cons.prems(2) unfolding all by simp
  have "read_loop (last ?parts) chunks =
      concat (map emitted (complete_lines (last ?parts @ concat chunks)))"
    by (rule Cons.IH [OF last_split_on_no_sep nb2])
  then show ?case
    unfolding all using process_parts_no_break [OF nb1]
    by (simp add: complete_lines_def Let_def)
qed

lemma trim_nonempty: "\<not> is_js_space c \<Longrightarrow> trim (c # s) \<noteq> []"
proof -
  assume c: "\<not> is_js_space c"
  then have "dropWhile is_js_space (rev (c # s)) \<noteq> []"
    by (simp add: dropWhile_eq_Nil_conv)
  with c show ?thesis by (simp add: trim_def)
qed

lemma process_part_frame:
  "wf_payload p \<Longrightarrow> process_part (frame_line p) = Emit (the (JSON_parse p))"
proof -
  assume wf: "wf_payload p"
  have t: "trim (js ''data: '' @ p) \<noteq> []"
    using trim_nonempty [of 100 "js ''ata: '' @ p"] by (simp add: is_js_space_def)
  have d: "p \<noteq> js ''[DONE]''" using wf by (auto simp: wf_payload_def)
  from wf obtain c where "JSON_parse p = Some c" by (auto simp: wf_payload_def)
  with t d show ?thesis
    by (simp add: process_part_def startsWith_def substring_from_def frame_line_def)
qed

lemma process_part_empty: "process_part [] = Skip"
  by (simp add: process_part_def trim_def)

lemma split_on_frames:
  "\<forall>p \<in> set ps. wf_payload p \<Longrightarrow>
   split_on 10 (concat (map frame_text ps)) =
     concat (map (\<lambda>p. [frame_line p, []]) ps) @ [[]]"
proof (induction ps)
  case Nil
  then show ?case by simp
next
  case (Cons p ps)
  then have nl: "10 \<notin> set (frame_line p)" by (auto simp: wf_payload_def frame_line_def)
  have "split_on 10 (frame_text p @ concat (map frame_text ps)) =
      frame_line p # split_on 10 (10 # concat (map frame_text ps))"
    using split_on_line [OF nl, of "10 # concat (map frame_text ps)"]
    by (simp add: frame_text_def)
  with Cons show ?case by simp
qed

lemma emitted_frames:
  "\<forall>p \<in> set ps. wf_payload p \<Longrightarrow>
   concat (map emitted (concat (map (\<lambda>p. [frame_line p, []]) ps))) =
     map (\<lambda>p. the (JSON_parse p)) ps"
  by (induction ps) (auto simp: emitted_def process_part_frame process_part_empty)

text \<open>
  Claim C1. For every sequence of well-formed \<open>data: {...}\<close> frames, however the text of the
  frames is cut into chunks, the decoder hands exactly one command per frame to
  \<open>onCommand\<close>, in the order of the frames: the command its payload parses to. The
  result does not mention the chunks, so delivery code unit by code unit and delivery
  in one chunk give the same sequence.
\<close>

theorem decoder_chunking_invariant:
  assumes wf: "\<forall>p \<in> set ps. wf_payload p"
    and r: "ok r"
    and chunks: "concat (body r) = concat (map frame_text ps)"
  shows "fetchStreamingResponse r = Inr (map (\<lambda>p. the (JSON_parse p)) ps)"
proof -
  have lines: "complete_lines (concat (body r)) = concat (map (\<lambda>p. [frame_line p, []]) ps)"
    unfolding complete_lines_def chunks split_on_frames [OF wf] by simp
  have nb: "\<forall>l \<in> set (complete_lines ([] @ concat (body r))). process_part l \<noteq> Break"
    using wf by (auto simp: lines process_part_frame process_part_empty)
  have "read_loop [] (body r) = map (\<lambda>p. the (JSON_parse p)) ps"
    using read_loop_lines [OF _ nb] by (simp add: lines emitted_frames [OF wf])
  with r show ?thesis by (simp add: fetchStreamingResponse_def)
qed

theorem decoder_chunking_invariant_witness:
  \<open>wf_payload (js ''{"type":"rect","x":0,"y":0,"width":40,"height":40}'') \<and>
   wf_payload (js ''{"type":"text","text":"hi","x":20,"y":30}'') \<and>
   fetchStreamingResponse
     \<lparr>ok = True, status = 200,
      body = map (\<lambda>c. [c])
               (frame_text (js ''{"type":"rect","x":0,"y":0,"width":40,"height":40}'') @
                frame_text (js ''{"type":"text","text":"hi","x":20,"y":30}''))\<rparr> =
     Inr [JObject [(js ''type'', JString (js ''rect'')), (js ''x'', JNumber 0), (js ''y'', JNumber 0),
                   (js ''width'', JNumber 40), (js ''height'', JNumber 40)],
          JObject [(js ''type'', JString (js ''text'')), (js ''text'', JString (js ''hi'')),
                   (js ''x'', JNumber 20), (js ''y'', JNumber 30)]] \<and>
   fetchStreamingResponse
     \<lparr>ok = True, status = 200,
      body = [frame_text (js ''{"type":"rect","x":0,"y":0,"width":40,"height":40}'') @
              frame_text (js ''{"type":"text","text":"hi","x":20,"y":30}'')]\<rparr> =
     Inr [JObject [(js ''type'', JString (js ''rect'')), (js ''x'', JNumber 0), (js ''y'', JNumber 0),
                   (js ''width'', JNumber 40), (js ''height'', JNumber 40)],
          JObject [(js ''type'', JString (js ''text'')), (js ''text'', JString (js ''hi'')),
                   (js ''x'', JNumber 20), (js ''y'', JNumber 30)]]\<close>
proof -
  let ?p1 = \<open>js ''{"type":"rect","x":0,"y":0,"width":40,"height":40}''\<close>
  let ?p2 = \<open>js ''{"type":"text","text":"hi","x":20,"y":30}''\<close>
  have e1: "JSON_parse ?p1 =
      Some (JObject [(js ''type'', JString (js ''rect'')), (js ''x'', JNumber 0), (js ''y'', JNumber 0),
                     (js ''width'', JNumber 40), (js ''height'', JNumber 40)])"
    by code_simp
  have e2: "JSON_parse ?p2 =
      Some (JObject [(js ''type'', JString (js ''text'')), (js ''text'', JString (js ''hi'')),
                     (js ''x'', JNumber 20), (js ''y'', JNumber 30)])"
    by code_simp
  have wf1: "wf_payload ?p1" unfolding wf_payload_def e1 by simp
  have wf2: "wf_payload ?p2" unfolding wf_payload_def e2 by simp
  have wf: "\<forall>p \<in> set [?p1, ?p2]. wf_payload p" using wf1 wf2 by simp
  have units: "concat (map (\<lambda>c. [c]) (frame_text ?p1 @ frame_text ?p2)) =
      concat (map frame_text [?p1, ?p2])"
    unfolding concat_map_singleton by simp
  have a: "fetchStreamingResponse
      \<lparr>ok = True, status = 200, body = map (\<lambda>c. [c]) (frame_text ?p1 @ frame_text ?p2)\<rparr> =
      Inr (map (\<lambda>p. the (JSON_parse p)) [?p1, ?p2])"
    by (rule decoder_chunking_invariant [OF wf]) (simp_all only: response.simps units)
  have b: "fetchStreamingResponse
      \<lparr>ok = True, status = 200, body = [frame_text ?p1 @ frame_text ?p2]\<rparr> =
      Inr (map (\<lambda>p. the (JSON_parse p)) [?p1, ?p2])"
    by (rule decoder_chunking_invariant [OF wf]) simp_all
  have m: "map (\<lambda>p. the (JSON_parse p)) [?p1, ?p2] =
      [JObject [(js ''type'', JString (js ''rect'')), (js ''x'', JNumber 0), (js ''y'', JNumber 0),
                (js ''width'', JNumber 40), (js ''height'', JNumber 40)],
       JObject [(js ''type'', JString (js ''text'')), (js ''text'', JString (js ''hi'')),
                (js ''x'', JNumber 20), (js ''y'', JNumber 30)]]"
    using e1 e2 by simp
  show ?thesis
    using wf1 wf2 a b unfolding m by blast
qed

subsection \<open>Lines without the prefix, the sentinel, and payloads\<close>

lemma process_part_no_prefix:
  "\<not> startsWith part (js ''data: '') \<Longrightarrow> process_part part = Skip"
  by (simp add: process_part_def)

lemma process_part_sentinel: "process_part (frame_line (js ''[DONE]'')) = Break"
  by code_simp

lemma process_parts_sentinel:
  "process_parts (frame_line (js ''[DONE]'') # parts) = []"
  by (simp only: process_parts.simps process_part_sentinel part_result.case)

lemma JSON_parse_sentinel: "JSON_parse (js ''[DONE]'') = None"
  by code_simp

lemma trim_frame_line: "trim (frame_line payload) \<noteq> []"
  using trim_nonempty [of 100 "js ''ata: '' @ payload"]
  by (simp add: is_js_space_def frame_line_def)

lemma process_part_frame_line:
  "process_part (frame_line payload) =
     (if payload = js ''[DONE]'' then Break
      else (case JSON_parse payload of None \<Rightarrow> Skip | Some command \<Rightarrow> Emit command))"
  using trim_frame_line [of payload]
  by (simp add: process_part_def startsWith_def substring_from_def)
     (simp add: frame_line_def)

text \<open>
  Claim C3, at the failing input: the sentinel arrives in one read and a frame in the
  next. The \<open>break\<close> leaves the \<open>for\<close> loop over the lines of the read that holds the
  sentinel; the \<open>while\<close> loop reads on, and the frame after the sentinel is handed to
  \<open>onCommand\<close>. The same text in a single read gives no command.
\<close>

theorem sentinel_then_frame_in_next_read:
  \<open>fetchStreamingResponse
     \<lparr>ok = True, status = 200,
      body = [js ''data: [DONE]\<newline>'', js ''data: {"type":"rect"}\<newline>'']\<rparr> =
     Inr [JObject [(js ''type'', JString (js ''rect''))]] \<and>
   fetchStreamingResponse
     \<lparr>ok = True, status = 200,
      body = [js ''data: [DONE]\<newline>data: {"type":"rect"}\<newline>'']\<rparr> = Inr []\<close>
  by code_simp

text \<open>
  Claim C4 as stated fails: a payload that parses to a bare string, and an object without
  a \<open>type\<close>, are both handed to \<open>onCommand\<close>.
\<close>

theorem bare_string_payload_is_emitted:
  \<open>fetchStreamingResponse
     \<lparr>ok = True, status = 200, body = [js ''data: "abc"\<newline>'']\<rparr> =
     Inr [JString (js ''abc'')] \<and>
   fetchStreamingResponse
     \<lparr>ok = True, status = 200, body = [js ''data: {"x":1}\<newline>'']\<rparr> =
     Inr [JObject [(js ''x'', JNumber 1)]]\<close>
  by code_simp

fun is_object :: "json \<Rightarrow> bool" where
  "is_object (JObject kvs) = True"
| "is_object v = False"

lemma candidate_text_non_object:
  "\<not> is_object v \<Longrightarrow> candidate_text v = Inl TypeError \<or> candidate_text v = Inr None"
  by (cases v) (simp_all add: candidate_text_def)

text \<open>
  Claim C4, amended. In the client's decoder a complete line with the prefix, other than
  the sentinel, gives a command exactly when its payload parses as JSON, whatever the
  value (no test for an object or for a \<open>type\<close>); a payload that does not parse is
  dropped, and in both cases the loop goes on with the next line. It is the server's
  frame mode that ignores a payload parsing to something that is not an object: such a
  line writes nothing and leaves the command buffer as it was.
\<close>

theorem frame_payload_emitted_iff_parses:
  "process_parts (frame_line payload # parts) =
     (if payload = js ''[DONE]'' then []
      else (case JSON_parse payload of
              None \<Rightarrow> process_parts parts
            | Some command \<Rightarrow> command # process_parts parts))
   \<and> (\<forall>v. JSON_parse payload = Some v \<and> \<not> is_object v \<longrightarrow>
          process_line ns cb (frame_line payload) = Continue [] cb)"
proof (intro conjI allI impI)
  show "process_parts (frame_line payload # parts) =
     (if payload = js ''[DONE]'' then []
      else (case JSON_parse payload of
              None \<Rightarrow> process_parts parts
            | Some command \<Rightarrow> command # process_parts parts))"
    by (simp add: process_part_frame_line split: option.splits)
next
  fix v
  assume a: "JSON_parse payload = Some v \<and> \<not> is_object v"
  then have nd: "payload \<noteq> js ''[DONE]''" using JSON_parse_sentinel by auto
  have st: "startsWith (frame_line payload) (js ''data: '')"
    by (simp add: startsWith_def frame_line_def)
  have sub: "substring_from (frame_line payload) 6 = payload"
    by (simp add: substring_from_def frame_line_def)
  from candidate_text_non_object [of v] a
  have "candidate_text v = Inl TypeError \<or> candidate_text v = Inr None" by simp
  then show "process_line ns cb (frame_line payload) = Continue [] cb"
    using a nd trim_frame_line [of payload]
    unfolding process_line_def st sub by (auto simp: Let_def)
qed

theorem frame_payload_emitted_iff_parses_witness:
  \<open>JSON_parse (js ''"abc"'') = Some (JString (js ''abc'')) \<and>
   \<not> is_object (JString (js ''abc'')) \<and>
   process_parts [frame_line (js ''"abc"''), frame_line (js ''{broken''), frame_line (js ''7'')] =
     [JString (js ''abc''), JNumber 7] \<and>
   process_line (\<lambda>q. []) (js ''{"type":'') (frame_line (js ''"abc"'')) =
     Continue [] (js ''{"type":'')\<close>
proof -
  have p1: \<open>JSON_parse (js ''"abc"'') = Some (JString (js ''abc''))\<close> by code_simp
  have p2: \<open>JSON_parse (js ''{broken'') = None\<close> by code_simp
  have p3: \<open>JSON_parse (js ''7'') = Some (JNumber 7)\<close> by code_simp
  have n1: \<open>js ''"abc"'' \<noteq> js ''[DONE]''\<close> by simp
  have n2: \<open>js ''{broken'' \<noteq> js ''[DONE]''\<close> by simp
  have n3: \<open>js ''7'' \<noteq> js ''[DONE]''\<close> by simp
  have e0: "process_parts [] = []" by simp
  note t1 = frame_payload_emitted_iff_parses
    [of \<open>js ''"abc"''\<close> \<open>[frame_line (js ''{broken''), frame_line (js ''7'')]\<close>
        \<open>\<lambda>q. []\<close> \<open>js ''{"type":''\<close>]
  note t2 = frame_payload_emitted_iff_parses
    [of \<open>js ''{broken''\<close> \<open>[frame_line (js ''7'')]\<close> \<open>\<lambda>q. []\<close> \<open>[]\<close>]
  note t3 = frame_payload_emitted_iff_parses [of \<open>js ''7''\<close> \<open>[]\<close> \<open>\<lambda>q. []\<close> \<open>[]\<close>]
  have a3: \<open>process_parts [frame_line (js ''7'')] = [JNumber 7]\<close>
    using t3 [THEN conjunct1] unfolding p3 e0 using n3 by simp
  have a2: \<open>process_parts [frame_line (js ''{broken''), frame_line (js ''7'')] = [JNumber 7]\<close>
    using t2 [THEN conjunct1] unfolding p2 a3 using n2 by simp
  have a1: \<open>process_parts [frame_line (js ''"abc"''), frame_line (js ''{broken''), frame_line (js ''7'')] =
      [JString (js ''abc''), JNumber 7]\<close>
    using t1 [THEN conjunct1] unfolding p1 a2 using n1 by simp
  have b: \<open>process_line (\<lambda>q. []) (js ''{"type":'') (frame_line (js ''"abc"'')) =
      Continue [] (js ''{"type":'')\<close>
    using t1 [THEN conjunct2] p1 by simp
  show ?thesis using p1 a1 b by simp
qed

subsection \<open>The regular expression finds the brace spans\<close>

lemma takeWhile_dropWhile_at:
  assumes "p < length xs" "\<not> P (xs ! p)" "\<forall>k < p. P (xs ! k)"
  shows "takeWhile P xs = take p xs" "dropWhile P xs = drop p xs"
proof -
  show t: "takeWhile P xs = take p xs"
    using assms by (intro takeWhile_eq_take_P_nth) auto
  have "length (takeWhile P xs) = p" using t assms(1) by simp
  then show "dropWhile P xs = drop p xs"
    using dropWhile_eq_drop [of P xs] by simp
qed

lemma match_here_span:
  assumes "brace_span text n j"
  shows "match_here (drop n text) = Some (substring text n (Suc j), drop (Suc j) text)"
proof -
  from assms have nj: "n < j" and jl: "j < length text" and o: "text ! n = 123"
    and c: "text ! j = 125" and mid: "\<forall>k. n < k \<and> k < j \<longrightarrow> \<not> is_brace (text ! k)"
    by (auto simp: brace_span_def list_all_iff)
  let ?cs = "drop (Suc n) text"
  let ?p = "j - Suc n"
  have d: "drop n text = text ! n # ?cs"
    using nj jl by (simp add: Cons_nth_drop_Suc)
  have pl: "?p < length ?cs" using nj jl by simp
  have "?cs ! ?p = text ! (Suc n + ?p)"
    using nj jl by (intro nth_drop) simp
  then have at: "?cs ! ?p = 125" using nj c by simp
  have nb: "\<not> (\<lambda>d. \<not> is_brace d) (?cs ! ?p)" using at by (simp add: is_brace_def)
  have before: "\<forall>k < ?p. (\<lambda>d. \<not> is_brace d) (?cs ! k)"
  proof (intro allI impI)
    fix k assume k: "k < ?p"
    have "?cs ! k = text ! (Suc n + k)" using jl k by (intro nth_drop) simp
    with mid k show "\<not> is_brace (?cs ! k)" by simp
  qed
  note td = takeWhile_dropWhile_at [OF pl nb before]
  have "drop ?p ?cs = drop j text" using nj by simp
  also have "\<dots> = text ! j # drop (Suc j) text"
    using jl by (simp add: Cons_nth_drop_Suc)
  finally have dr: "drop ?p ?cs = 125 # drop (Suc j) text" using c by simp
  have m: "text ! n # take ?p ?cs @ [125] = substring text n (Suc j)"
  proof -
    have "Suc j - n = Suc (Suc ?p)" using nj by simp
    then have "take (Suc j - n) (drop n text) = take (Suc (Suc ?p)) (text ! n # ?cs)"
      using d by simp
    also have "\<dots> = text ! n # take (Suc ?p) ?cs" by simp
    also have "take (Suc ?p) ?cs = take ?p ?cs @ [?cs ! ?p]"
      using pl by (simp add: take_Suc_conv_app_nth)
    finally show ?thesis using at by (simp add: substring_def)
  qed
  show ?thesis
    unfolding d match_here_def using o td dr m by simp
qed

lemma match_here_Some:
  assumes n: "n < length text"
    and m: "match_here (drop n text) = Some (m, rest)"
  shows "\<exists>j. brace_span text n j \<and> m = substring text n (Suc j) \<and> rest = drop (Suc j) text"
proof -
  let ?cs = "drop (Suc n) text"
  let ?P = "\<lambda>d. \<not> is_brace d"
  have d: "drop n text = text ! n # ?cs"
    using n by (simp add: Cons_nth_drop_Suc)
  from m obtain r where o: "text ! n = 123" and dw: "dropWhile ?P ?cs = 125 # r"
    unfolding d match_here_def by (auto split: list.splits if_splits)
  let ?p = "length (takeWhile ?P ?cs)"
  have pl: "?p < length ?cs"
    using dw by (metis dropWhile_eq_drop drop_eq_Nil2 linorder_not_less list.distinct(1))
  have at: "?cs ! ?p = 125"
    using dw by (metis hd_dropWhile dropWhile_eq_drop hd_drop_conv_nth list.sel(1) pl)
  let ?j = "Suc n + ?p"
  have jl: "?j < length text" using pl by simp
  have "?cs ! ?p = text ! ?j" using jl by (intro nth_drop) simp
  with at have c: "text ! ?j = 125" by simp
  have mid: "list_all (\<lambda>k. \<not> is_brace (text ! k)) [Suc n..<?j]"
  proof -
    have "\<not> is_brace (text ! k)" if "Suc n \<le> k" "k < ?j" for k
    proof -
      have "k - Suc n < ?p" using that by simp
      then have "takeWhile ?P ?cs ! (k - Suc n) \<in> set (takeWhile ?P ?cs)"
        by (rule nth_mem)
      then have "?P (takeWhile ?P ?cs ! (k - Suc n))"
        by (rule set_takeWhileD [THEN conjunct2])
      moreover have "takeWhile ?P ?cs ! (k - Suc n) = ?cs ! (k - Suc n)"
        using \<open>k - Suc n < ?p\<close> by (rule takeWhile_nth)
      moreover have "?cs ! (k - Suc n) = text ! (Suc n + (k - Suc n))"
        using jl that by (intro nth_drop) simp
      ultimately show ?thesis using that by simp
    qed
    then show ?thesis by (auto simp: list_all_iff)
  qed
  have sp: "brace_span text n ?j"
    using o c jl mid by (simp add: brace_span_def)
  from match_here_span [OF sp] m have "m = substring text n (Suc ?j)" "rest = drop (Suc ?j) text"
    by simp_all
  with sp show ?thesis by blast
qed

lemma brace_span_unique:
  assumes "brace_span text n j" "brace_span text n j'"
  shows "j = j'"
proof -
  from match_here_span [OF assms(1)] match_here_span [OF assms(2)]
  have "drop (Suc j) text = drop (Suc j') text" by simp
  then have "length (drop (Suc j) text) = length (drop (Suc j') text)" by simp
  moreover from assms have "j < length text" "j' < length text"
    by (simp_all add: brace_span_def)
  ultimately show ?thesis by simp
qed

lemma filter_single:
  assumes "distinct xs" and "j \<in> set xs" and "P j"
    and only: "\<And>k. k \<in> set xs \<Longrightarrow> P k \<Longrightarrow> k = j"
  shows "filter P xs = [j]"
  using assms
proof (induction xs)
  case Nil
  then show ?case by simp
next
  case (Cons a xs)
  show ?case
  proof (cases "a = j")
    case True
    have "\<not> P k" if "k \<in> set xs" for k
    proof
      assume "P k"
      with that Cons.prems(4) [of k] have "k = j" by simp
      with that True Cons.prems(1) show False by simp
    qed
    then have "filter P xs = []" by (simp add: filter_empty_conv)
    with True Cons.prems(3) show ?thesis by simp
  next
    case False
    have na: "\<not> P a"
    proof
      assume "P a"
      with Cons.prems(4) [of a] have "a = j" by simp
      with False show False by simp
    qed
    have d: "distinct xs" using Cons.prems(1) by simp
    have m: "j \<in> set xs" using Cons.prems(2) False by simp
    have o: "\<And>k. k \<in> set xs \<Longrightarrow> P k \<Longrightarrow> k = j"
      using Cons.prems(4) by simp
    from Cons.IH [OF d m Cons.prems(3) o] na show ?thesis by simp
  qed
qed

lemma span_row_span:
  assumes "brace_span text n j"
  shows "span_row text n = [(n, j)]"
proof -
  have d: "distinct [Suc n..<length text]" by simp
  from assms have m: "j \<in> set [Suc n..<length text]" by (simp add: brace_span_def)
  have o: "\<And>k. k \<in> set [Suc n..<length text] \<Longrightarrow> brace_span text n k \<Longrightarrow> k = j"
    by (rule brace_span_unique [OF _ assms])
  have "filter (brace_span text n) [Suc n..<length text] = [j]"
    by (rule filter_single [where P = "brace_span text n", OF d m assms o])
  then show ?thesis by (simp only: span_row_def list.map)
qed

lemma span_row_no_match:
  assumes "match_here (drop n text) = None"
  shows "span_row text n = []"
proof -
  have "\<not> brace_span text n j" for j
    using match_here_span [of "text" n j] assms by auto
  then show ?thesis by (simp add: span_row_def filter_empty_conv)
qed

lemma span_row_inside:
  assumes "brace_span text n j" "n < i" "i \<le> j"
  shows "span_row text i = []"
proof -
  have "text ! i \<noteq> 123"
  proof (cases "i = j")
    case True
    with assms(1) show ?thesis by (simp add: brace_span_def)
  next
    case False
    with assms have "\<not> is_brace (text ! i)" by (simp add: brace_span_def list_all_iff)
    then show ?thesis by (simp add: is_brace_def)
  qed
  then have "\<not> brace_span text i k" for k by (simp add: brace_span_def)
  then show ?thesis by (simp add: span_row_def filter_empty_conv)
qed

lemma spans_from_step:
  "n < length text \<Longrightarrow> spans_from n text = span_row text n @ spans_from (Suc n) text"
  by (simp add: spans_from_def upt_conv_Cons)

lemma spans_from_skip:
  assumes "brace_span text n j"
  shows "spans_from (Suc n) text = spans_from (Suc j) text"
proof -
  from assms have nj: "n < j" and jl: "j < length text" by (simp_all add: brace_span_def)
  have le: "Suc n \<le> Suc j" using nj by simp
  have eq: "Suc j + (length text - Suc j) = length text" using jl by simp
  have "[Suc n..<length text] = [Suc n..<Suc j] @ [Suc j..<length text]"
    using upt_add_eq_append [OF le, of "length text - Suc j"] unfolding eq .
  moreover have "concat (map (span_row text) [Suc n..<Suc j]) = []"
    using span_row_inside [OF assms] by auto
  ultimately show ?thesis by (simp add: spans_from_def)
qed

lemma match_all_drop:
  "match_all (drop n text) = map (\<lambda>(i, j). substring text i (Suc j)) (spans_from n text)"
proof (induction "length text - n" arbitrary: n rule: less_induct)
  case less
  show ?case
  proof (cases "n < length text")
    case False
    then show ?thesis by (simp add: spans_from_def)
  next
    case True
    then have d: "drop n text = text ! n # drop (Suc n) text"
      by (simp add: Cons_nth_drop_Suc)
    show ?thesis
    proof (cases "match_here (drop n text)")
      case None
      have "match_all (drop n text) = match_all (drop (Suc n) text)"
        using None unfolding d by simp
      also have "\<dots> = map (\<lambda>(i, j). substring text i (Suc j)) (spans_from (Suc n) text)"
        using True by (intro less) simp
      finally show ?thesis
        using True by (simp add: spans_from_step span_row_no_match [OF None])
    next
      case (Some a)
      obtain m rest where a: "a = (m, rest)" by (cases a)
      from match_here_Some [OF True Some [unfolded a]]
      obtain j where sp: "brace_span text n j" and m: "m = substring text n (Suc j)"
        and rest: "rest = drop (Suc j) text" by blast
      from sp have nj: "n < j" by (simp add: brace_span_def)
      have "match_all (drop n text) = m # match_all rest"
        using Some a unfolding d by simp
      also have "match_all rest = map (\<lambda>(i, j). substring text i (Suc j)) (spans_from (Suc j) text)"
        unfolding rest using True nj by (intro less) simp
      finally show ?thesis
        using True m
        by (simp add: spans_from_step span_row_span [OF sp] spans_from_skip [OF sp])
    qed
  qed
qed

lemma match_all_spans:
  "match_all text = map (\<lambda>(i, j). substring text i (Suc j)) (brace_spans text)"
  using match_all_drop [of 0 "text"] by (simp add: brace_spans_def)

lemma command_of_match_accepted: "command_of_match m = accepted m"
  by (auto simp: command_of_match_def accepted_def has_truthy_type_def
      split: option.splits sum.splits)

lemma extractCommands_spec: "extractCommands text = loose_recovery_spec text"
  unfolding extractCommands_def loose_recovery_spec_def match_all_spans
  by (simp add: map_concat comp_def split_def command_of_match_accepted)

lemma accumulate_found:
  "extractCommands (cb @ t) \<noteq> [] \<Longrightarrow> accumulate cb t = (extractCommands (cb @ t), [])"
  by (simp add: accumulate_def Let_def)

lemma accumulate_not_found:
  "extractCommands (cb @ t) = [] \<Longrightarrow> accumulate cb t = ([], cb @ t)"
  by (simp add: accumulate_def Let_def)

text \<open>
  Claim C5. For every text blob, \<open>extractCommands\<close> returns, from left to right, exactly
  what the bracket-balanced \<open>{...}\<close> substrings without nested braces give that parse as
  JSON with a truthy \<open>type\<close>; and when it returns a command for the accumulated blob, the
  commands are written and the blob is set to the empty string.
\<close>

theorem extractCommands_brace_spans:
  "extractCommands text = loose_recovery_spec text \<and>
   (extractCommands (cb @ t) \<noteq> [] \<longrightarrow>
      accumulate cb t = (loose_recovery_spec (cb @ t), []))"
  using accumulate_found [of cb t] by (simp add: extractCommands_spec)

theorem extractCommands_brace_spans_witness:
  \<open>brace_spans (js ''[{"type":"a"},{"x":1},{"type":"b",'') = [(1, 12), (14, 20)] \<and>
   extractCommands (js ''[{"type":"a"},{"x":1},{"type":"b",'') =
     [JObject [(js ''type'', JString (js ''a''))]] \<and>
   accumulate (js ''[{"type":"a"},'') (js ''{"x":1},{"type":"b",'') =
     ([JObject [(js ''type'', JString (js ''a''))]], [])\<close>
proof -
  let ?cb = \<open>js ''[{"type":"a"},''\<close>
  let ?t = \<open>js ''{"x":1},{"type":"b",''\<close>
  have sp: \<open>brace_spans (js ''[{"type":"a"},{"x":1},{"type":"b",'') = [(1, 12), (14, 20)]\<close>
    by code_simp
  have ex: \<open>extractCommands (js ''[{"type":"a"},{"x":1},{"type":"b",'') =
      [JObject [(js ''type'', JString (js ''a''))]]\<close>
    by code_simp
  have ex': \<open>extractCommands (?cb @ ?t) = [JObject [(js ''type'', JString (js ''a''))]]\<close>
    by code_simp
  then have ne: "extractCommands (?cb @ ?t) \<noteq> []" by simp
  note th = extractCommands_brace_spans [of \<open>?cb @ ?t\<close> ?cb ?t]
  have s1: "loose_recovery_spec (?cb @ ?t) = extractCommands (?cb @ ?t)"
    using th [THEN conjunct1] by (rule sym)
  have "accumulate ?cb ?t = (loose_recovery_spec (?cb @ ?t), [])"
    using th [THEN conjunct2] ne by (rule mp)
  then have ac: \<open>accumulate ?cb ?t = ([JObject [(js ''type'', JString (js ''a''))]], [])\<close>
    by (simp only: s1 ex')
  show ?thesis using sp ex ac by blast
qed

text \<open>
  Claim C10. Whenever \<open>extractCommands\<close> finds a command in the accumulated buffer, the
  whole buffer becomes the empty string, with whatever stood after the last complete
  command; what the later steps write is what a fresh buffer gives for the later texts
  alone, so a command whose text began before the reset is not among it.
\<close>

theorem reset_drops_partial_command:
  assumes "extractCommands (cb @ t) \<noteq> []"
  shows "snd (accumulate cb t) = [] \<and>
         accumulate_all cb (t # later) = extractCommands (cb @ t) @ accumulate_all [] later"
  using assms by (simp add: accumulate_found)

theorem reset_drops_partial_command_witness:
  \<open>extractCommands ([] @ js ''{"type":"a"}{"type":"b",'') \<noteq> [] \<and>
   snd (accumulate [] (js ''{"type":"a"}{"type":"b",'')) = [] \<and>
   accumulate_all [] [js ''{"type":"a"}{"type":"b",'', js ''"x":1}'', js ''{"type":"c"}''] =
     [JObject [(js ''type'', JString (js ''a''))], JObject [(js ''type'', JString (js ''c''))]] \<and>
   extractCommands (js ''{"type":"a"}{"type":"b","x":1}{"type":"c"}'') =
     [JObject [(js ''type'', JString (js ''a''))],
      JObject [(js ''type'', JString (js ''b'')), (js ''x'', JNumber 1)],
      JObject [(js ''type'', JString (js ''c''))]]\<close>
proof -
  let ?t = \<open>js ''{"type":"a"}{"type":"b",''\<close>
  let ?later = \<open>[js ''"x":1}'', js ''{"type":"c"}'']\<close>
  have ex: \<open>extractCommands ([] @ ?t) = [JObject [(js ''type'', JString (js ''a''))]]\<close>
    by code_simp
  then have ne: \<open>extractCommands ([] @ ?t) \<noteq> []\<close> by simp
  have fresh: \<open>accumulate_all [] ?later = [JObject [(js ''type'', JString (js ''c''))]]\<close>
    by code_simp
  have whole: \<open>extractCommands (js ''{"type":"a"}{"type":"b","x":1}{"type":"c"}'') =
     [JObject [(js ''type'', JString (js ''a''))],
      JObject [(js ''type'', JString (js ''b'')), (js ''x'', JNumber 1)],
      JObject [(js ''type'', JString (js ''c''))]]\<close>
    by code_simp
  from reset_drops_partial_command [OF ne, of ?later]
  have "snd (accumulate [] ?t) = []"
    and "accumulate_all [] (?t # ?later) = extractCommands ([] @ ?t) @ accumulate_all [] ?later"
    by blast+
  then have "snd (accumulate [] ?t) = []"
    and "accumulate_all [] (?t # ?later) =
      [JObject [(js ''type'', JString (js ''a''))], JObject [(js ''type'', JString (js ''c''))]]"
    unfolding ex fresh by simp_all
  with ne whole show ?thesis by blast
qed

subsection \<open>The interpreter: groups and unknown types\<close>

lemma parse_group_command:
  \<open>JSON_parse (js ''{"type":"group","x":100,"y":50,"children":[{"type":"rect","x":0,"y":0,"width":40,"height":40}]}'') =
     Some (group_command 100 50 [rect_command 0 0 40 40])\<close>
  by code_simp

lemma render_rect_command:
  "renderCommand dl (rect_command rx ry w h) index = Inr (render_rect (rect_command rx ry w h) index)"
  by (subst renderCommand.simps) (simp add: rect_command_def)

lemma absolute_rects_rect_command:
  "absolute_rects ox oy (render_rect (rect_command rx ry w h) index) = [(ox + rx, oy + ry, w, h)]"
  by (simp add: render_rect_def rect_command_def num_prop_def field_def)

lemma render_group_command:
  "renderCommand dl (group_command gx gy children) index =
     (case renderChildren dl children (index @ js ''-'') 0 of
        Inl e \<Rightarrow> Inl e
      | Inr nodes \<Rightarrow> Inr (Element Group (group_props (group_command gx gy children) index) nodes))"
  unfolding group_command_def
  by (subst renderCommand.simps) (simp add: field_def)

lemma absolute_rects_group:
  "absolute_rects ox oy (Element Group (group_props (group_command gx gy children) index) nodes) =
     concat (map (absolute_rects (ox + gx) (oy + gy)) nodes)"
  by (simp add: group_props_def group_command_def num_prop_def field_def)

lemma render_group_of_rect:
  "renderCommand dl (group_command gx gy [rect_command rx ry w h]) index =
     Inr (Element Group (group_props (group_command gx gy [rect_command rx ry w h]) index)
            [render_rect (rect_command rx ry w h) (index @ js ''-'' @ show_nat 0)])"
  unfolding render_group_command by (simp add: render_rect_command)

lemma absolute_rects_render_rect:
  "absolute_rects ox oy (render_rect command index) = rect_of ox oy command"
  by (simp add: render_rect_def rect_of_def num_prop_def num_field_def
      split: option.splits json.splits)

lemma absolute_rects_group_props:
  "absolute_rects ox oy (Element Group (group_props command index) nodes) =
     (case num_field command (js ''x'') of
        None \<Rightarrow> []
      | Some gx \<Rightarrow>
          (case num_field command (js ''y'') of
             None \<Rightarrow> []
           | Some gy \<Rightarrow> concat (map (absolute_rects (ox + gx) (oy + gy)) nodes)))"
  by (simp add: group_props_def num_prop_def num_field_def split: option.splits json.splits)

lemma renderCommand_typed:
  assumes "js_get command (js ''type'') = Inr ty" and "\<not> ToString_throws_val ty"
  shows "renderCommand dl command index =
     (if ty = Some (JString (js ''text'')) then Inr (render_text dl command index)
      else if ty = Some (JString (js ''equation'')) then Inr (render_equation command index)
      else if ty = Some (JString (js ''line'')) then Inr (render_line command index)
      else if ty = Some (JString (js ''rect'')) then Inr (render_rect command index)
      else if ty = Some (JString (js ''group'')) then
        (case field command (js ''children'') of
           Some (JArray children) \<Rightarrow>
             (case renderChildren dl children (index @ js ''-'') 0 of
                Inl e \<Rightarrow> Inl e
              | Inr nodes \<Rightarrow> Inr (Element Group (group_props command index) nodes))
         | other \<Rightarrow>
             if truthy_val other then Inl TypeError
             else Inr (Element Group (group_props command index) [Value other]))
      else Inr Null)"
  by (subst renderCommand.simps) (simp only: assms sum.case if_False)

lemma renderCommand_no_type:
  "js_get command (js ''type'') = Inl e \<Longrightarrow> renderCommand dl command index = Inl e"
  by (subst renderCommand.simps) (simp only: sum.case)

lemma renderCommand_type_throws:
  "js_get command (js ''type'') = Inr ty \<Longrightarrow> ToString_throws_val ty \<Longrightarrow>
   renderCommand dl command index = Inl TypeError"
  by (subst renderCommand.simps) (simp only: sum.case if_True)

lemma absolute_rects_no_shape:
  "absolute_rects ox oy (render_text dl command index) = []"
  "absolute_rects ox oy (render_equation command index) = []"
  "absolute_rects ox oy (render_line command index) = []"
  by (simp_all add: render_text_def render_equation_def render_line_def Let_def)

lemma command_rects_no_shape:
  "field command (js ''type'') \<noteq> Some (JString (js ''rect'')) \<Longrightarrow>
   field command (js ''type'') \<noteq> Some (JString (js ''group'')) \<Longrightarrow>
   command_rects ox oy command = []"
  by (subst command_rects.simps) simp

lemma command_rects_rect:
  "field command (js ''type'') = Some (JString (js ''rect'')) \<Longrightarrow>
   command_rects ox oy command = rect_of ox oy command"
  by (subst command_rects.simps) simp

lemma command_rects_group:
  "field command (js ''type'') = Some (JString (js ''group'')) \<Longrightarrow>
   command_rects ox oy command =
     (case field command (js ''children'') of
           Some (JArray children) \<Rightarrow>
             (case num_field command (js ''x'') of
                None \<Rightarrow> []
              | Some gx \<Rightarrow>
                  (case num_field command (js ''y'') of
                     None \<Rightarrow> []
                   | Some gy \<Rightarrow> concat (map (command_rects (ox + gx) (oy + gy)) children)))
         | other \<Rightarrow> [])"
  by (subst command_rects.simps) simp

lemma render_refines_command_rects:
  shows "renderCommand dl command index = Inr n \<Longrightarrow>
            absolute_rects ox oy n = command_rects ox oy command"
   and "renderChildren dl children prefix k = Inr nodes \<Longrightarrow>
            concat (map (absolute_rects ox oy) nodes) = concat (map (command_rects ox oy) children)"
proof (induction dl command index and dl children prefix k arbitrary: n ox oy and nodes ox oy
    rule: renderCommand_renderChildren.induct)
  case (1 dl command index)
  show ?case
  proof (cases "js_get command (js ''type'')")
    case (Inl e)
    from 1(2) show ?thesis unfolding renderCommand_no_type [OF Inl] by simp
  next
    case (Inr ty)
    then have f: "field command (js ''type'') = ty" by (simp add: field_def)
    show ?thesis
    proof (cases "ToString_throws_val ty")
      case True
      from 1(2) show ?thesis unfolding renderCommand_type_throws [OF Inr True] by simp
    next
      case nt: False
      note r = 1(2) [unfolded renderCommand_typed [OF Inr nt]]
      show ?thesis
      proof (cases "ty = Some (JString (js ''group''))")
        case g: True
        have fg: "field command (js ''type'') = Some (JString (js ''group''))"
          unfolding f g ..
        show ?thesis
        proof (cases "\<exists>children. field command (js ''children'') = Some (JArray children)")
          case True
          then obtain children where c: "field command (js ''children'') = Some (JArray children)"
            by blast
          from r c obtain nodes where rc: "renderChildren dl children (index @ js ''-'') 0 = Inr nodes"
            and n: "n = Element Group (group_props command index) nodes"
            by (auto simp: g split: sum.splits)
          have ih: "concat (map (absolute_rects ox' oy') nodes) =
              concat (map (command_rects ox' oy') children)" for ox' oy'
            using 1(1) [of ty "JArray children" children nodes ox' oy'] Inr nt g c rc by simp
          show ?thesis
            unfolding n absolute_rects_group_props command_rects_group [OF fg] c
            by (simp add: ih split: option.splits)
        next
          case False
          with r have n: "n = Element Group (group_props command index)
              [Value (field command (js ''children''))]"
            by (auto simp: g split: option.splits json.splits if_splits)
          have "command_rects ox oy command = []"
            unfolding command_rects_group [OF fg] using False
            by (auto split: option.splits json.splits)
          moreover have "absolute_rects ox oy n = []"
            unfolding n absolute_rects_group_props by (simp split: option.splits)
          ultimately show ?thesis by simp
        qed
      next
        case ng: False
        show ?thesis
        proof (cases "ty = Some (JString (js ''rect''))")
          case True
          with r have "n = render_rect command index" by simp
          then show ?thesis
            using command_rects_rect [of command ox oy] True f
            by (simp add: absolute_rects_render_rect del: absolute_rects.simps)
        next
          case False
          have "command_rects ox oy command = []"
            using f False ng by (intro command_rects_no_shape) simp_all
          moreover have "absolute_rects ox oy n = []"
            using r False ng by (auto simp: absolute_rects_no_shape split: if_splits)
          ultimately show ?thesis by simp
        qed
      qed
    qed
  qed
next
  case (2 dl prefix k)
  then show ?case by simp
next
  case (3 dl child children prefix k)
  from 3(3) obtain n ns where c: "renderCommand dl child (prefix @ show_nat k) = Inr n"
    and cs: "renderChildren dl children prefix (Suc k) = Inr ns" and nodes: "nodes = n # ns"
    by (auto split: sum.splits)
  show ?case
    unfolding nodes using 3(1) [OF c, of ox oy] 3(2) [OF c cs, of ox oy] by simp
qed

lemma command_rects_rect_command:
  "command_rects ox oy (rect_command rx ry w h) = [(ox + rx, oy + ry, w, h)]"
  by (subst command_rects.simps)
     (simp add: rect_command_def rect_of_def num_field_def field_def)

lemma command_rects_group_command:
  "command_rects ox oy (group_command gx gy children) =
     concat (map (command_rects (ox + gx) (oy + gy)) children)"
  by (subst command_rects.simps)
     (simp add: group_command_def num_field_def field_def)

lemma render_group_children:
  "renderChildren dl children (index @ js ''-'') 0 = Inr nodes \<Longrightarrow>
   renderCommand dl (group_command gx gy children) index =
     Inr (Element Group (group_props (group_command gx gy children) index) nodes)"
  unfolding render_group_command by (simp only: sum.case)

lemma group_of_rect_and_group:
  "map_sum id (absolute_rects ox oy)
     (renderCommand dl
        (group_command gx gy
           [rect_command rx ry w h, group_command gx' gy' [rect_command rx' ry' w' h']])
        index) =
     Inr [(ox + gx + rx, oy + gy + ry, w, h), (ox + gx + gx' + rx', oy + gy + gy' + ry', w', h')]"
proof -
  have "renderCommand dl
        (group_command gx gy
           [rect_command rx ry w h, group_command gx' gy' [rect_command rx' ry' w' h']])
        index =
      Inr (Element Group
             (group_props (group_command gx gy
                [rect_command rx ry w h, group_command gx' gy' [rect_command rx' ry' w' h']]) index)
             [render_rect (rect_command rx ry w h) (index @ js ''-'' @ show_nat 0),
              Element Group
                (group_props (group_command gx' gy' [rect_command rx' ry' w' h'])
                   (index @ js ''-'' @ show_nat 1))
                [render_rect (rect_command rx' ry' w' h')
                   ((index @ js ''-'' @ show_nat 1) @ js ''-'' @ show_nat 0)]])"
    unfolding render_group_command [of dl gx gy]
    by (simp add: render_rect_command render_group_of_rect)
  then show ?thesis
    by (simp add: absolute_rects_group absolute_rects_rect_command del: absolute_rects.simps)
qed

text \<open>
  Claim C6. A \<open>group\<close> at (100, 50) whose children are one \<open>rect\<close> at (0, 0) of width 40 and
  height 40 is rendered as a group element around the rectangle, which the presentation
  layer draws at (100, 50, 40, 40); a rectangle in a group is moved by the group's \<open>x\<close>
  and \<open>y\<close>, and one in a group inside the group by both offsets. For every list of
  children that renders, the group is rendered as a group element around the rendered
  children, and its rectangles are those of the children with the offset moved by the
  group's \<open>x\<close> and \<open>y\<close>. At every depth: the rectangles of whatever \<open>renderCommand\<close> returns
  for a command are those of \<open>command_rects\<close>, which moves the offset by each group's
  \<open>x\<close> and \<open>y\<close> on the way down to a \<open>rect\<close>.
\<close>

theorem group_offsets_children:
  "map_sum id (absolute_rects 0 0)
     (renderCommand dl (group_command 100 50 [rect_command 0 0 40 40]) index) =
     Inr [(100, 50, 40, 40)] \<and>
   map_sum id (absolute_rects ox oy)
     (renderCommand dl
        (group_command gx gy
           [rect_command rx ry w h, group_command gx' gy' [rect_command rx' ry' w' h']])
        index) =
     Inr [(ox + gx + rx, oy + gy + ry, w, h), (ox + gx + gx' + rx', oy + gy + gy' + ry', w', h')] \<and>
   (\<forall>nodes. renderChildren dl children (index @ js ''-'') 0 = Inr nodes \<longrightarrow>
      renderCommand dl (group_command gx gy children) index =
        Inr (Element Group (group_props (group_command gx gy children) index) nodes) \<and>
      absolute_rects ox oy
        (Element Group (group_props (group_command gx gy children) index) nodes) =
        concat (map (absolute_rects (ox + gx) (oy + gy)) nodes)) \<and>
   (\<forall>n. renderCommand dl command index = Inr n \<longrightarrow>
      absolute_rects ox oy n = command_rects ox oy command) \<and>
   command_rects ox oy (rect_command rx ry w h) = [(ox + rx, oy + ry, w, h)] \<and>
   command_rects ox oy (group_command gx gy children) =
     concat (map (command_rects (ox + gx) (oy + gy)) children)"
proof (intro conjI allI impI)
  show "map_sum id (absolute_rects 0 0)
     (renderCommand dl (group_command 100 50 [rect_command 0 0 40 40]) index) =
     Inr [(100, 50, 40, 40)]"
    unfolding render_group_of_rect
    by (simp add: absolute_rects_group absolute_rects_rect_command del: absolute_rects.simps)
next
  show "map_sum id (absolute_rects ox oy)
     (renderCommand dl
        (group_command gx gy
           [rect_command rx ry w h, group_command gx' gy' [rect_command rx' ry' w' h']])
        index) =
     Inr [(ox + gx + rx, oy + gy + ry, w, h), (ox + gx + gx' + rx', oy + gy + gy' + ry', w', h')]"
    by (rule group_of_rect_and_group)
next
  fix nodes
  assume "renderChildren dl children (index @ js ''-'') 0 = Inr nodes"
  then show "renderCommand dl (group_command gx gy children) index =
      Inr (Element Group (group_props (group_command gx gy children) index) nodes)"
    by (rule render_group_children)
next
  fix nodes
  show "absolute_rects ox oy
      (Element Group (group_props (group_command gx gy children) index) nodes) =
      concat (map (absolute_rects (ox + gx) (oy + gy)) nodes)"
    by (rule absolute_rects_group)
next
  fix n
  assume "renderCommand dl command index = Inr n"
  then show "absolute_rects ox oy n = command_rects ox oy command"
    by (rule render_refines_command_rects(1))
next
  show "command_rects ox oy (rect_command rx ry w h) = [(ox + rx, oy + ry, w, h)]"
    by (rule command_rects_rect_command)
next
  show "command_rects ox oy (group_command gx gy children) =
      concat (map (command_rects (ox + gx) (oy + gy)) children)"
    by (rule command_rects_group_command)
qed

theorem group_offsets_children_witness:
  "renderChildren (\<lambda>t. [])
     [rect_command 0 0 40 40, group_command 10 20 [rect_command 1 2 3 4]] (js ''0-'') 0 =
     Inr [render_rect (rect_command 0 0 40 40) (js ''0-0''),
          Element Group (group_props (group_command 10 20 [rect_command 1 2 3 4]) (js ''0-1''))
            [render_rect (rect_command 1 2 3 4) (js ''0-1-0'')]] \<and>
   map_sum id (absolute_rects 0 0)
     (renderCommand (\<lambda>t. [])
        (group_command 100 50
           [rect_command 0 0 40 40, group_command 10 20 [rect_command 1 2 3 4]]) (js ''0'')) =
     Inr [(100, 50, 40, 40), (111, 72, 3, 4)] \<and>
   command_rects 0 0
     (group_command 100 50
        [rect_command 0 0 40 40, group_command 10 20 [rect_command 1 2 3 4]]) =
     [(100, 50, 40, 40), (111, 72, 3, 4)]"
proof -
  let ?dl = "\<lambda>t :: json option. [] :: MathSpan list"
  let ?inner = "group_command 10 20 [rect_command 1 2 3 4]"
  let ?children = "[rect_command 0 0 40 40, ?inner]"
  let ?nodes = "[render_rect (rect_command 0 0 40 40) (js ''0-0''),
          Element Group (group_props ?inner (js ''0-1''))
            [render_rect (rect_command 1 2 3 4) (js ''0-1-0'')]]"
  let ?g = "group_command 100 50 ?children"
  let ?n = "Element Group (group_props ?g (js ''0'')) ?nodes"
  have s0: "show_nat 0 = js ''0''" and s1: "show_nat 1 = js ''1''"
    by (simp_all add: show_nat.simps)
  have c: "renderChildren ?dl ?children (js ''0'' @ js ''-'') 0 = Inr ?nodes"
    using s0 s1 by (simp add: render_rect_command render_group_of_rect)
  note th = group_offsets_children [of ?dl "js ''0''" 0 0 100 50 0 0 40 40 10 20 1 2 3 4 ?children ?g]
  have r: "renderCommand ?dl ?g (js ''0'') = Inr ?n"
    by (rule th [THEN conjunct2, THEN conjunct2, THEN conjunct1, rule_format, THEN conjunct1])
       (rule c)
  have "absolute_rects 0 0 ?n = command_rects 0 0 ?g"
    by (rule th [THEN conjunct2, THEN conjunct2, THEN conjunct2, THEN conjunct1, rule_format])
       (rule r)
  moreover have e: "command_rects 0 0 ?g = [(100, 50, 40, 40), (111, 72, 3, 4)]"
    by (simp add: command_rects_group_command command_rects_rect_command)
  ultimately have a: "map_sum id (absolute_rects 0 0) (renderCommand ?dl ?g (js ''0'')) =
      Inr [(100, 50, 40, 40), (111, 72, 3, 4)]"
    unfolding r by simp
  have c': "renderChildren ?dl ?children (js ''0-'') 0 = Inr ?nodes"
    using c by simp
  from c' a e show ?thesis by (intro conjI)
qed

lemma renderChildren_append:
  "renderChildren dl (xs @ ys) prefix k =
     (case renderChildren dl xs prefix k of
        Inl e \<Rightarrow> Inl e
      | Inr ns \<Rightarrow>
          (case renderChildren dl ys prefix (k + length xs) of
             Inl e \<Rightarrow> Inl e
           | Inr ms \<Rightarrow> Inr (ns @ ms)))"
proof (induction xs arbitrary: k)
  case Nil
  show ?case by (simp split: sum.splits)
next
  case (Cons a xs)
  show ?case
    by (simp add: Cons.IH [of "Suc k"] split: sum.splits)
qed

lemma renderCommand_unknown_string:
  assumes t: "field command (js ''type'') = Some (JString t)"
    and n: "t \<notin> set recognized_types"
  shows "renderCommand dl command index = Inr Null"
proof -
  have "command \<noteq> JNull" using t by (auto simp: field_def)
  then obtain ty where g: "js_get command (js ''type'') = Inr ty"
    by (cases command) simp_all
  then have f: "field command (js ''type'') = ty" by (simp add: field_def)
  have ty: "ty = Some (JString t)" using f t by simp
  have pr: "\<not> ToString_throws_val ty" unfolding ty by simp
  have "ty \<noteq> Some (JString (js ''text''))" "ty \<noteq> Some (JString (js ''equation''))"
    "ty \<noteq> Some (JString (js ''line''))" "ty \<noteq> Some (JString (js ''rect''))"
    "ty \<noteq> Some (JString (js ''group''))"
    using n unfolding ty recognized_types_def by auto
  then show ?thesis
    unfolding renderCommand_typed [OF g pr] by (simp only: if_False)
qed

text \<open>
  Claim C9. A command whose \<open>type\<close> is a string other than the five the \<open>switch\<close> knows
  (such as \<open>sparkle\<close>) is rendered as \<open>null\<close>: no error and no drawable; in a list the
  commands before it and after it are rendered as they are without it, each at its own
  index.
\<close>

theorem unknown_type_renders_nothing:
  assumes "field command (js ''type'') = Some (JString t)" and "t \<notin> set recognized_types"
  shows "renderCommand dl command index = Inr Null \<and>
         (\<forall>ns ms. renderChildren dl before prefix k = Inr ns \<and>
                  renderChildren dl after prefix (Suc (k + length before)) = Inr ms \<longrightarrow>
            renderChildren dl (before @ command # after) prefix k = Inr (ns @ Null # ms) \<and>
            drawables (ns @ Null # ms) = drawables ns @ drawables ms)"
proof (intro conjI allI impI)
  show "renderCommand dl command index = Inr Null"
    by (rule renderCommand_unknown_string [OF assms])
next
  fix ns ms
  assume a: "renderChildren dl before prefix k = Inr ns \<and>
             renderChildren dl after prefix (Suc (k + length before)) = Inr ms"
  have c: "renderCommand dl command (prefix @ show_nat (k + length before)) = Inr Null"
    by (rule renderCommand_unknown_string [OF assms])
  show "renderChildren dl (before @ command # after) prefix k = Inr (ns @ Null # ms)"
    unfolding renderChildren_append using a c by simp
next
  fix ns ms :: "node list"
  show "drawables (ns @ Null # ms) = drawables ns @ drawables ms"
    by (simp add: drawables_def)
qed

theorem unknown_type_renders_nothing_witness:
  \<open>JSON_parse (js ''{"type":"sparkle"}'') = Some (JObject [(js ''type'', JString (js ''sparkle''))]) \<and>
   js ''sparkle'' \<notin> set recognized_types \<and>
   renderCommand (\<lambda>t. []) (JObject [(js ''type'', JString (js ''sparkle''))]) (js ''0'') = Inr Null \<and>
   map_sum id drawables
     (render_layer (\<lambda>t. [])
        [rect_command 1 2 3 4, JObject [(js ''type'', JString (js ''sparkle''))],
         rect_command 5 6 7 8]) =
     Inr [render_rect (rect_command 1 2 3 4) (js ''0''), render_rect (rect_command 5 6 7 8) (js ''2'')]\<close>
proof -
  let ?c = \<open>JObject [(js ''type'', JString (js ''sparkle''))]\<close>
  let ?dl = "\<lambda>t :: json option. [] :: MathSpan list"
  let ?r1 = "rect_command 1 2 3 4"
  let ?r2 = "rect_command 5 6 7 8"
  have j: \<open>JSON_parse (js ''{"type":"sparkle"}'') = Some ?c\<close> by code_simp
  have u: "field ?c (js ''type'') = Some (JString (js ''sparkle''))"
    by (simp add: field_def)
  have p: "js ''sparkle'' \<notin> set recognized_types" by (simp add: recognized_types_def)
  have s0: "show_nat 0 = js ''0''" and s2: "show_nat 2 = js ''2''"
    by (simp_all add: show_nat.simps)
  have two: "Suc (0 + length [?r1]) = 2" by simp
  have b: "renderChildren ?dl [?r1] [] 0 = Inr [render_rect ?r1 (js ''0'')]"
    using s0 by (simp add: render_rect_command)
  have a: "renderChildren ?dl [?r2] [] (Suc (0 + length [?r1])) = Inr [render_rect ?r2 (js ''2'')]"
    unfolding two using s2 by (simp add: render_rect_command)
  note th = unknown_type_renders_nothing [OF u p, of ?dl "js ''0''" "[?r1]" "[]" 0 "[?r2]"]
  have r: "renderCommand ?dl ?c (js ''0'') = Inr Null" by (rule th [THEN conjunct1])
  have l: "renderChildren ?dl ([?r1] @ ?c # [?r2]) [] 0 =
      Inr ([render_rect ?r1 (js ''0'')] @ Null # [render_rect ?r2 (js ''2'')])"
    by (rule th [THEN conjunct2, rule_format, THEN conjunct1]) (rule conjI [OF b a])
  have d: "drawables ([render_rect ?r1 (js ''0'')] @ Null # [render_rect ?r2 (js ''2'')]) =
      [render_rect ?r1 (js ''0''), render_rect ?r2 (js ''2'')]"
    by (simp add: drawables_def render_rect_def)
  have "map_sum id drawables (render_layer ?dl ([?r1] @ ?c # [?r2])) =
      Inr [render_rect ?r1 (js ''0''), render_rect ?r2 (js ''2'')]"
    unfolding render_layer_def l using d by simp
  then have m: "map_sum id drawables (render_layer ?dl [?r1, ?c, ?r2]) =
      Inr [render_rect ?r1 (js ''0''), render_rect ?r2 (js ''2'')]"
    by simp
  from j p r m show ?thesis by (intro conjI)
qed

text \<open>
  Off the command schema, where \<open>type\<close> is a string: the key of the element is built from
  the type before the \<open>switch\<close>, so a type that is an object with a member named
  \<open>toString\<close>, which has no usable conversion to a string, makes \<open>renderCommand\<close> throw a
  TypeError before the \<open>default\<close> case is reached.
\<close>

lemma object_type_with_toString_throws:
  \<open>JSON_parse (js ''{"type":{"toString":0}}'') =
     Some (JObject [(js ''type'', JObject [(js ''toString'', JNumber 0)])]) \<and>
   renderCommand dl (JObject [(js ''type'', JObject [(js ''toString'', JNumber 0)])]) index =
     Inl TypeError\<close>
proof -
  let ?c = \<open>JObject [(js ''type'', JObject [(js ''toString'', JNumber 0)])]\<close>
  have p: \<open>JSON_parse (js ''{"type":{"toString":0}}'') = Some ?c\<close> by code_simp
  have r: "renderCommand dl ?c index = Inl TypeError"
    by (subst renderCommand.simps) simp
  from p r show ?thesis by (intro conjI)
qed

subsection \<open>The span detector\<close>

lemma closing_none: "36 \<notin> set s \<Longrightarrow> closing s = None"
proof -
  assume "36 \<notin> set s"
  then have "\<forall>c \<in> set s. c \<noteq> 36" by blast
  then have e: "dropWhile (\<lambda>c. c \<noteq> 36) s = []" by (simp add: dropWhile_eq_Nil_conv)
  show ?thesis unfolding closing_def e by simp
qed

lemma closing_Some:
  "closing s = Some (content, rest) \<Longrightarrow> s = content @ 36 # rest \<and> 36 \<notin> set content"
proof -
  assume a: "closing s = Some (content, rest)"
  then obtain d where d: "dropWhile (\<lambda>c. c \<noteq> 36) s = d # rest"
    and c: "content = takeWhile (\<lambda>c. c \<noteq> 36) s"
    by (auto simp: closing_def split: list.splits)
  have "d = hd (dropWhile (\<lambda>c. c \<noteq> 36) s)" using d by simp
  moreover have "dropWhile (\<lambda>c. c \<noteq> 36) s \<noteq> []" using d by simp
  then have "\<not> hd (dropWhile (\<lambda>c. c \<noteq> 36) s) \<noteq> 36"
    by (rule hd_dropWhile)
  ultimately have d36: "d = 36" by simp
  have "s = takeWhile (\<lambda>c. c \<noteq> 36) s @ dropWhile (\<lambda>c. c \<noteq> 36) s" by simp
  then have "s = content @ 36 # rest" unfolding d c [symmetric] d36 .
  moreover have "36 \<notin> set content" unfolding c by (auto dest: set_takeWhileD)
  ultimately show ?thesis by simp
qed

lemma count_list_no_marker: "(36::nat) \<notin> set s \<Longrightarrow> count_list s 36 = 0"
  by (induction s) auto

lemma detect_from_no_marker: "36 \<notin> set s \<Longrightarrow> detect_from off s = []"
  by (induction s arbitrary: off) auto

lemma detect_from_bounds:
  "sp \<in> set (detect_from off s) \<Longrightarrow>
   off \<le> m_start sp \<and> m_start sp < m_end sp \<and> m_end sp \<le> off + length s \<and>
   36 \<notin> set (m_latex sp)"
proof (induction off s rule: detect_from.induct)
  case (1 off)
  then show ?case by simp
next
  case (2 off c cs)
  show ?case
  proof (cases "c = 36")
    case False
    with 2(3) have m: "sp \<in> set (detect_from (Suc off) cs)" by simp
    from 2(2) [OF False m] show ?thesis by simp
  next
    case True
    show ?thesis
    proof (cases "closing cs")
      case None
      with True 2(3) show ?thesis by simp
    next
      case (Some a)
      obtain content rest where a: "a = (content, rest)" by (cases a)
      from closing_Some [OF Some [unfolded a]]
      have cs: "cs = content @ 36 # rest" and n: "36 \<notin> set content" by simp_all
      from 2(3) True Some a
      have "sp = \<lparr>m_start = off, m_end = off + length content + 2, m_latex = content\<rparr> \<or>
            sp \<in> set (detect_from (off + length content + 2) rest)"
        by simp
      then show ?thesis
      proof
        assume sp: "sp = \<lparr>m_start = off, m_end = off + length content + 2, m_latex = content\<rparr>"
        show ?thesis unfolding sp using n by (simp add: cs)
      next
        assume m: "sp \<in> set (detect_from (off + length content + 2) rest)"
        from 2(1) [OF True Some a [symmetric] m] show ?thesis by (simp add: cs)
      qed
    qed
  qed
qed

lemma detect_from_ordered:
  "sorted_wrt (\<lambda>a b. m_end a \<le> m_start b) (detect_from off s)"
proof (induction off s rule: detect_from.induct)
  case (1 off)
  show ?case by simp
next
  case (2 off c cs)
  show ?case
  proof (cases "c = 36")
    case False
    with 2(2) show ?thesis by simp
  next
    case True
    show ?thesis
    proof (cases "closing cs")
      case None
      with True show ?thesis by simp
    next
      case (Some a)
      obtain content rest where a: "a = (content, rest)" by (cases a)
      have ih: "sorted_wrt (\<lambda>a b. m_end a \<le> m_start b)
          (detect_from (off + length content + 2) rest)"
        by (rule 2(1) [OF True Some a [symmetric]])
      have "\<forall>sp \<in> set (detect_from (off + length content + 2) rest).
          off + length content + 2 \<le> m_start sp"
        using detect_from_bounds by blast
      with ih show ?thesis using True Some a by simp
    qed
  qed
qed

lemma detect_from_length: "length (detect_from off s) = count_list s 36 div 2"
proof (induction off s rule: detect_from.induct)
  case (1 off)
  show ?case by simp
next
  case (2 off c cs)
  show ?case
  proof (cases "c = 36")
    case False
    with 2(2) show ?thesis by simp
  next
    case True
    show ?thesis
    proof (cases "closing cs")
      case None
      then have "36 \<notin> set cs"
        by (auto simp: closing_def dropWhile_eq_Nil_conv split: list.splits)
      then show ?thesis using True None by (simp add: count_list_no_marker)
    next
      case (Some a)
      obtain content rest where a: "a = (content, rest)" by (cases a)
      from closing_Some [OF Some [unfolded a]]
      have cs: "cs = content @ 36 # rest" and n: "36 \<notin> set content" by simp_all
      have ih: "length (detect_from (off + length content + 2) rest) = count_list rest 36 div 2"
        by (rule 2(1) [OF True Some a [symmetric]])
      have "count_list (c # cs) 36 = count_list rest 36 + 2"
        unfolding cs True using n by (simp add: count_list_no_marker)
      then show ?thesis using True Some a ih by simp
    qed
  qed
qed

lemma detect_from_offsets:
  "sp \<in> set (detect_from off s) \<Longrightarrow> off = length pre \<Longrightarrow>
   substring (pre @ s) (m_start sp) (m_end sp) = 36 # m_latex sp @ [36]"
proof (induction off s arbitrary: pre rule: detect_from.induct)
  case (1 off)
  then show ?case by simp
next
  case (2 off c cs)
  show ?case
  proof (cases "c = 36")
    case False
    with 2(3) have m: "sp \<in> set (detect_from (Suc off) cs)" by simp
    have "substring ((pre @ [c]) @ cs) (m_start sp) (m_end sp) = 36 # m_latex sp @ [36]"
      by (rule 2(2) [OF False m]) (simp add: 2(4))
    then show ?thesis by simp
  next
    case True
    show ?thesis
    proof (cases "closing cs")
      case None
      with True 2(3) show ?thesis by simp
    next
      case (Some a)
      obtain content rest where a: "a = (content, rest)" by (cases a)
      from closing_Some [OF Some [unfolded a]]
      have cs: "cs = content @ 36 # rest" by simp
      from 2(3) True Some a
      have "sp = \<lparr>m_start = off, m_end = off + length content + 2, m_latex = content\<rparr> \<or>
            sp \<in> set (detect_from (off + length content + 2) rest)"
        by simp
      then show ?thesis
      proof
        assume sp: "sp = \<lparr>m_start = off, m_end = off + length content + 2, m_latex = content\<rparr>"
        have "take (length content + 2) (c # cs) = 36 # content @ [36]"
          unfolding cs True by simp
        then show ?thesis
          unfolding sp by (simp add: substring_def 2(4))
      next
        assume m: "sp \<in> set (detect_from (off + length content + 2) rest)"
        have "substring ((pre @ 36 # content @ [36]) @ rest) (m_start sp) (m_end sp) =
            36 # m_latex sp @ [36]"
          by (rule 2(1) [OF True Some a [symmetric] m]) (simp add: 2(4))
        then show ?thesis unfolding cs True by simp
      qed
    qed
  qed
qed

text \<open>
  Claim C7. On \<open>solve $x^2$ now\<close> the detector returns one span, with content \<open>x^2\<close> and
  the offsets 6 and 11. On every text: the offsets of each span it returns cut the
  delimited substring (marker, content, marker) out of the source, the content holds no
  marker, and the span ends inside the text; the spans are in left-to-right order and
  do not overlap; a text without a marker gives the empty list; a text with unbalanced
  delimiters (an odd number of markers, as in \<open>$a$ b $c\<close>) gives the empty list; a text
  with balanced delimiters gives one span for each pair of markers. The detector is a
  total function: it returns a list on every text.
\<close>

theorem detectLatex_spans:
  "detectLatex (js ''solve $x^2$ now'') = [\<lparr>m_start = 6, m_end = 11, m_latex = js ''x^2''\<rparr>] \<and>
   (\<forall>sp \<in> set (detectLatex text).
      substring text (m_start sp) (m_end sp) = 36 # m_latex sp @ [36] \<and>
      36 \<notin> set (m_latex sp) \<and> m_start sp < m_end sp \<and> m_end sp \<le> length text) \<and>
   sorted_wrt (\<lambda>a b. m_end a \<le> m_start b) (detectLatex text) \<and>
   (36 \<notin> set text \<longrightarrow> detectLatex text = []) \<and>
   (odd (count_list text 36) \<longrightarrow> detectLatex text = []) \<and>
   (even (count_list text 36) \<longrightarrow> length (detectLatex text) = count_list text 36 div 2)"
proof (intro conjI ballI impI)
  show "detectLatex (js ''solve $x^2$ now'') = [\<lparr>m_start = 6, m_end = 11, m_latex = js ''x^2''\<rparr>]"
    by code_simp
next
  fix sp assume "sp \<in> set (detectLatex text)"
  then have m: "sp \<in> set (detect_from 0 text)"
    by (simp add: detectLatex_def split: if_splits)
  from detect_from_offsets [OF m, of "[]"]
  show "substring text (m_start sp) (m_end sp) = 36 # m_latex sp @ [36]" by simp
  from detect_from_bounds [OF m]
  show "36 \<notin> set (m_latex sp)" and "m_start sp < m_end sp" and "m_end sp \<le> length text"
    by simp_all
next
  show "sorted_wrt (\<lambda>a b. m_end a \<le> m_start b) (detectLatex text)"
    by (simp add: detectLatex_def detect_from_ordered)
next
  assume "36 \<notin> set text"
  then show "detectLatex text = []" by (simp add: detectLatex_def detect_from_no_marker)
next
  assume "odd (count_list text 36)"
  then show "detectLatex text = []" by (simp add: detectLatex_def)
next
  assume "even (count_list text 36)"
  then show "length (detectLatex text) = count_list text 36 div 2"
    by (simp add: detectLatex_def detect_from_length)
qed

theorem detectLatex_spans_witness:
  "detectLatex (js ''solve $x^2$ now'') = [\<lparr>m_start = 6, m_end = 11, m_latex = js ''x^2''\<rparr>] \<and>
   substring (js ''solve $x^2$ now'') 6 11 = js ''$x^2$'' \<and>
   detectLatex (js ''no math here'') = [] \<and>
   detectLatex (js ''cost $5'') = [] \<and>
   detectLatex (js ''$a$ b $c'') = [] \<and>
   length (detectLatex (js ''$a$ and $b$'')) = 2"
proof -
  let ?s = "js ''solve $x^2$ now''"
  let ?sp = "\<lparr>m_start = 6, m_end = 11, m_latex = js ''x^2''\<rparr>"
  note th = detectLatex_spans [of ?s]
  have d: "detectLatex ?s = [?sp]" by (rule th [THEN conjunct1])
  have "\<forall>sp \<in> set (detectLatex ?s).
      substring ?s (m_start sp) (m_end sp) = 36 # m_latex sp @ [36] \<and>
      36 \<notin> set (m_latex sp) \<and> m_start sp < m_end sp \<and> m_end sp \<le> length ?s"
    by (rule th [THEN conjunct2, THEN conjunct1])
  then have "substring ?s (m_start ?sp) (m_end ?sp) = 36 # m_latex ?sp @ [36]"
    unfolding d by simp
  then have o: "substring ?s 6 11 = js ''$x^2$''" by simp
  have "36 \<notin> set (js ''no math here'')" by simp
  with detectLatex_spans [of "js ''no math here''"]
  have n: "detectLatex (js ''no math here'') = []" by blast
  have "odd (count_list (js ''cost $5'') 36)" by simp
  with detectLatex_spans [of "js ''cost $5''"]
  have u: "detectLatex (js ''cost $5'') = []" by blast
  have "odd (count_list (js ''$a$ b $c'') 36)" by simp
  with detectLatex_spans [of "js ''$a$ b $c''"]
  have v: "detectLatex (js ''$a$ b $c'') = []" by blast
  have c: "count_list (js ''$a$ and $b$'') 36 = 4" by simp
  then have "even (count_list (js ''$a$ and $b$'') 36)" by simp
  with detectLatex_spans [of "js ''$a$ and $b$''"]
  have "length (detectLatex (js ''$a$ and $b$'')) = count_list (js ''$a$ and $b$'') 36 div 2"
    by blast
  then have w: "length (detectLatex (js ''$a$ and $b$'')) = 2" unfolding c by simp
  from d o n u v w show ?thesis by (intro conjI)
qed

subsection \<open>The equation renderers\<close>




subsection \<open>Requests and the canvas\<close>

text \<open>
  The Generate button is disabled while a request is loading, so a click cannot start a
  second request over the first; the Enter key calls the handler without that test.
\<close>

lemma generate_button_waits:
  "loading (app pg) \<Longrightarrow> step lt (ClickGenerate out) pg = pg"
  by (simp add: step_def)

lemma enter_key_does_not_wait:
  "trim (prompt (app pg)) \<noteq> [] \<Longrightarrow>
   step lt (PressEnter out) pg =
     \<lparr>app = (app pg)\<lparr>loading := True, error := NoError, commands := [], equations := []\<rparr>,
      calls = calls pg @ [Some (AwaitFetch out)]\<rparr>"
  by (simp add: step_def start_call_def handleGenerate_def)

text \<open>
  Claim C2 fails on the code. The first request has delivered an equation (its
  typesetting is under way) and waits for the timer of its second command when Enter is
  pressed for a second prompt; the lists are emptied, the first request's timer fires
  and its text command is appended, then the second request delivers its command. At
  the end no call is waiting, and the canvas holds a command of the abandoned request
  before the new one.
\<close>

theorem stale_command_reaches_new_canvas:
  \<open>commands (app (run (\<lambda>i l. False)
      [Type (js ''first''),
       PressEnter (Responds True 200 (JSON_parse (js
         ''{"commands":[{"type":"equation","latex":"a^2"},{"type":"text","text":"old"}]}''))),
       Resume 0, Resume 0, Resume 0,
       Type (js ''second''),
       PressEnter (Responds True 200 (JSON_parse (js
         ''{"commands":[{"type":"text","text":"new"}]}''))),
       Resume 0, Resume 1, Resume 1, Resume 1]
      initial_page)) =
     [JObject [(js ''type'', JString (js ''text'')), (js ''text'', JString (js ''old''))],
      JObject [(js ''type'', JString (js ''text'')), (js ''text'', JString (js ''new''))]] \<and>
   all_returned (run (\<lambda>i l. False)
      [Type (js ''first''),
       PressEnter (Responds True 200 (JSON_parse (js
         ''{"commands":[{"type":"equation","latex":"a^2"},{"type":"text","text":"old"}]}''))),
       Resume 0, Resume 0, Resume 0,
       Type (js ''second''),
       PressEnter (Responds True 200 (JSON_parse (js
         ''{"commands":[{"type":"text","text":"new"}]}''))),
       Resume 0, Resume 1, Resume 1, Resume 1]
      initial_page)\<close>
  by code_simp

end
